theory Spec2Isabelle
  imports Main "HOL-Library.Multiset" "HOL-Library.Sublist" "HOL-Library.Product_Lexorder"
begin

section \<open>Python values and exceptions\<close>

text \<open>
  The values the program handles: what \<open>response.json()\<close> makes of a JSON body (dict,
  list, str, int, bool, None), and \<open>None\<close> as the value of a function that returns
  nothing. A dict is kept as an association list that is read with \<open>map_of\<close>. Floating
  point numbers are left out.
\<close>

datatype pyval =
    PyNone
  | PyBool bool
  | PyInt int
  | PyStr string
  | PyList "pyval list"
  | PyDict "(string \<times> pyval) list"

datatype exn =
    KeyError string
  | TypeError
  | JSONDecodeError
  | RequestException
  | OverflowError
  | FileNotFoundError
  | HttpError
  | AuthError

text \<open>How a function of the program ends: it returns, calls \<open>sys.exit(code)\<close>, or an
  exception leaves it uncaught.\<close>

datatype 'a outcome = Returned 'a | SysExit int | Raised exn

text \<open>\<open>obj[key]\<close> with a string key: only a dict can be subscripted with a string, and a
  missing key raises \<open>KeyError\<close>.\<close>

fun py_getitem :: "pyval \<Rightarrow> string \<Rightarrow> exn + pyval" where
  "py_getitem (PyDict kv) k = (case map_of kv k of None \<Rightarrow> Inl (KeyError k) | Some v \<Rightarrow> Inr v)"
| "py_getitem _ k = Inl TypeError"

text \<open>\<open>d.get(key)\<close> on a dict: the value, or \<open>None\<close> for a missing key.\<close>

definition dict_get :: "(string \<times> pyval) list \<Rightarrow> string \<Rightarrow> pyval" where
  "dict_get kv k = (case map_of kv k of None \<Rightarrow> PyNone | Some v \<Rightarrow> v)"

text \<open>Truth value of an object, as \<open>while next_link:\<close> tests it.\<close>

fun truthy :: "pyval \<Rightarrow> bool" where
  "truthy PyNone = False"
| "truthy (PyBool b) = b"
| "truthy (PyInt n) = (n \<noteq> 0)"
| "truthy (PyStr s) = (s \<noteq> [])"
| "truthy (PyList xs) = (xs \<noteq> [])"
| "truthy (PyDict kv) = (kv \<noteq> [])"

text \<open>Iterating over a value, as \<open>events.extend(v)\<close> and \<open>for event in events\<close> do: the
  elements of a list, the characters of a string, the keys of a dict; any other value is
  not iterable (\<open>TypeError\<close>).\<close>

fun py_iter :: "pyval \<Rightarrow> exn + pyval list" where
  "py_iter (PyList xs) = Inr xs"
| "py_iter (PyStr s) = Inr (map (\<lambda>c. PyStr [c]) s)"
| "py_iter (PyDict kv) = Inr (map PyStr (remdups (map fst kv)))"
| "py_iter _ = Inl TypeError"

section \<open>Enumeration: \<open>fetch_events\<close>\<close>

text \<open>
  One \<open>requests.get\<close> either raises inside the library (connection failure, unusable
  URL) or gives a response with a status code and a body; \<open>body\<close> is \<open>None\<close> when the
  text is not JSON. The provider is a script: the outcomes of the successive GET calls of
  one run, in order.
\<close>

datatype get_outcome = GetRaises | Response nat "pyval option"

text \<open>\<open>response.raise_for_status()\<close> raises \<open>HTTPError\<close> for the client and server
  error statuses.\<close>

definition is_http_error :: "nat \<Rightarrow> bool" where
  "is_http_error st = (400 \<le> st \<and> st < 600)"

text \<open>
  The loop of \<open>CalendarCleaner.fetch_events\<close> (and, word for word, of \<open>main\<close> in
  cleaner.py). \<open>events\<close> and \<open>next_link\<close> are the loop variables. The result is \<open>None\<close>
  when the loop asks for a response the script does not hold.
\<close>

fun fetch_loop :: "pyval list \<Rightarrow> pyval \<Rightarrow> get_outcome list \<Rightarrow> pyval list outcome option" where
  "fetch_loop events next_link script =
     (if \<not> truthy next_link then Some (Returned events)
      else if length events > 9500 then Some (Returned events)
      else (case script of
          [] \<Rightarrow> None
        | GetRaises # rest \<Rightarrow> Some (Raised RequestException)
        | Response st body # rest \<Rightarrow>
            if is_http_error st then Some (SysExit 1)
            else (case body of
                None \<Rightarrow> Some (Raised JSONDecodeError)
              | Some data \<Rightarrow>
                 (case py_getitem data ''value'' of
                    Inl e \<Rightarrow> Some (Raised e)
                  | Inr v \<Rightarrow>
                     (case py_iter v of
                        Inl e \<Rightarrow> Some (Raised e)
                      | Inr items \<Rightarrow>
                         (case data of
                            PyDict kv \<Rightarrow> fetch_loop (events @ items) (dict_get kv ''@odata.nextLink'') rest
                          | _ \<Rightarrow> Some (Raised TypeError)))))))"

text \<open>The first link is a non-empty f-string built from the two bounds.\<close>

definition first_link :: "string \<Rightarrow> string \<Rightarrow> pyval" where
  "first_link start_time_iso end_time_iso =
     PyStr (''https://graph.microsoft.com/v1.0/me/calendarview?startDateTime='' @ start_time_iso
           @ ''&endDateTime='' @ end_time_iso @ ''&$top=500'')"

declare fetch_loop.simps [simp del]

definition fetch_events :: "string \<Rightarrow> string \<Rightarrow> get_outcome list \<Rightarrow> pyval list outcome option" where
  "fetch_events start_time_iso end_time_iso script =
     fetch_loop [] (first_link start_time_iso end_time_iso) script"

section \<open>Time window: parsing, conversion to UTC, serialisation\<close>

text \<open>
  A \<open>datetime\<close> with its calendar fields; seconds and microseconds are always zero
  here, because the format \<open>%Y-%m-%d %H:%M\<close> has none and time zone offsets are whole
  minutes.
\<close>

record datetime =
  year :: nat
  month :: nat
  day :: nat
  hour :: nat
  minute :: nat

subsection \<open>\<open>datetime.strptime(s, '%Y-%m-%d %H:%M')\<close>\<close>

text \<open>
  The standard library turns the format into the regular expression
  \<^verbatim>\<open>(\d\d\d\d)-(1[0-2]|0[1-9]|[1-9])-(3[0-1]|[1-2]\d|0[1-9]|[1-9]| [1-9])\s+(2[0-3]|[0-1]\d|\d):([0-5]\d|\d)\<close>,
  matches it at the start of the string and rejects text that remains. A piece of the
  expression is a function from the text to the list of its matches (value and rest),
  in the order in which the backtracking matcher tries them. Characters are ASCII.
\<close>

definition digit_val :: "char \<Rightarrow> nat option" where
  "digit_val c = (let n = (of_char c :: nat) in if 48 \<le> n \<and> n \<le> 57 then Some (n - 48) else None)"

definition is_space :: "char \<Rightarrow> bool" where
  "is_space c = ((of_char c :: nat) \<in> {9, 10, 11, 12, 13, 28, 29, 30, 31, 32})"

text \<open>One digit whose value lies between \<open>lo\<close> and \<open>hi\<close>.\<close>

definition digit_in :: "nat \<Rightarrow> nat \<Rightarrow> string \<Rightarrow> (nat \<times> string) list" where
  "digit_in lo hi s =
     (case s of [] \<Rightarrow> []
      | c # rest \<Rightarrow> (case digit_val c of None \<Rightarrow> []
          | Some d \<Rightarrow> if lo \<le> d \<and> d \<le> hi then [(d, rest)] else []))"

text \<open>Two digits in a row, the first in \<open>lo1..hi1\<close>, the second in \<open>lo2..hi2\<close>.\<close>

definition two_digits :: "nat \<Rightarrow> nat \<Rightarrow> nat \<Rightarrow> nat \<Rightarrow> string \<Rightarrow> (nat \<times> string) list" where
  "two_digits lo1 hi1 lo2 hi2 s =
     [(10 * a + b, r'). (a, r) \<leftarrow> digit_in lo1 hi1 s, (b, r') \<leftarrow> digit_in lo2 hi2 r]"

definition lit :: "char \<Rightarrow> string \<Rightarrow> string list" where
  "lit c s = (case s of [] \<Rightarrow> [] | d # rest \<Rightarrow> if d = c then [rest] else [])"

text \<open>\<open>\s+\<close>: one or more white space characters, the longest run first.\<close>

fun spaces :: "string \<Rightarrow> string list" where
  "spaces [] = []"
| "spaces (c # rest) = (if is_space c then spaces rest @ [rest] else [])"

definition year_re :: "string \<Rightarrow> (nat \<times> string) list" where
  "year_re s =
     [(100 * a + b, r'). (a, r) \<leftarrow> two_digits 0 9 0 9 s, (b, r') \<leftarrow> two_digits 0 9 0 9 r]"

definition month_re :: "string \<Rightarrow> (nat \<times> string) list" where
  "month_re s = two_digits 1 1 0 2 s @ two_digits 0 0 1 9 s @ digit_in 1 9 s"

definition day_re :: "string \<Rightarrow> (nat \<times> string) list" where
  "day_re s = two_digits 3 3 0 1 s @ two_digits 1 2 0 9 s @ two_digits 0 0 1 9 s @ digit_in 1 9 s
              @ concat (map (digit_in 1 9) (lit (CHR 0x20) s))"

definition hour_re :: "string \<Rightarrow> (nat \<times> string) list" where
  "hour_re s = two_digits 2 2 0 3 s @ two_digits 0 1 0 9 s @ digit_in 0 9 s"

definition minute_re :: "string \<Rightarrow> (nat \<times> string) list" where
  "minute_re s = two_digits 0 5 0 9 s @ digit_in 0 9 s"

text \<open>All matches of the whole expression, best first: the fields and the text left over.\<close>

definition format_re :: "string \<Rightarrow> (datetime \<times> string) list" where
  "format_re s =
     [(\<lparr>year = y, month = m, day = d, hour = h, minute = mi\<rparr>, r9).
        (y, r1) \<leftarrow> year_re s, r2 \<leftarrow> lit (CHR ''-'') r1,
        (m, r3) \<leftarrow> month_re r2, r4 \<leftarrow> lit (CHR ''-'') r3,
        (d, r5) \<leftarrow> day_re r4, r6 \<leftarrow> spaces r5,
        (h, r7) \<leftarrow> hour_re r6, r8 \<leftarrow> lit (CHR '':'') r7,
        (mi, r9) \<leftarrow> minute_re r8]"

definition is_leap :: "nat \<Rightarrow> bool" where
  "is_leap y = (y mod 4 = 0 \<and> (y mod 100 \<noteq> 0 \<or> y mod 400 = 0))"

definition days_in_month :: "nat \<Rightarrow> nat \<Rightarrow> nat" where
  "days_in_month y m =
     (if m = 2 \<and> is_leap y then 29 else [0, 31, 28, 31, 30, 31, 30, 31, 31, 30, 31, 30, 31] ! m)"

text \<open>\<open>None\<close> stands for the \<open>ValueError\<close> of a string that does not match, leaves text
  unconverted, or names a date that does not exist (year 0, day 31 of a short month).\<close>

definition strptime :: "string \<Rightarrow> datetime option" where
  "strptime s =
     (case format_re s of
        [] \<Rightarrow> None
      | (dt, rest) # _ \<Rightarrow>
          if rest \<noteq> [] then None
          else if year dt < 1 then None
          else if day dt > days_in_month (year dt) (month dt) then None
          else Some dt)"

subsection \<open>Localising and converting to UTC\<close>

text \<open>
  Day numbers as the \<open>datetime\<close> module counts them: day 1 is 0001-01-01 and the last
  one, 3652059, is 9999-12-31.
\<close>

definition days_before_year :: "nat \<Rightarrow> int" where
  "days_before_year y = (let y1 = int y - 1 in y1 * 365 + y1 div 4 - y1 div 100 + y1 div 400)"

definition days_before_month :: "nat \<Rightarrow> nat \<Rightarrow> int" where
  "days_before_month y m =
     [0, 0, 31, 59, 90, 120, 151, 181, 212, 243, 273, 304, 334] ! m
       + (if m > 2 \<and> is_leap y then 1 else 0)"

definition ymd2ord :: "nat \<Rightarrow> nat \<Rightarrow> nat \<Rightarrow> int" where
  "ymd2ord y m d = days_before_year y + days_before_month y m + int d"

definition ord2ymd :: "int \<Rightarrow> nat \<times> nat \<times> nat" where
  "ord2ymd n0 =
     (let n = n0 - 1;
          n400 = n div 146097; n = n mod 146097;
          n100 = n div 36524; n = n mod 36524;
          n4 = n div 1461; n = n mod 1461;
          n1 = n div 365; n = n mod 365;
          y = nat (n400 * 400 + 1 + n100 * 100 + n4 * 4 + n1)
      in if n1 = 4 \<or> n100 = 4 then (y - 1, 12, 31)
         else
           let leapyear = (n1 = 3 \<and> (n4 \<noteq> 24 \<or> n100 = 3));
               m = nat ((n + 50) div 32);
               preceding = [0, 0, 31, 59, 90, 120, 151, 181, 212, 243, 273, 304, 334] ! m
                             + (if m > 2 \<and> leapyear then 1 else 0)
           in if preceding > n
              then (y, m - 1,
                    nat (n - (preceding - ([0, 31, 28, 31, 30, 31, 30, 31, 31, 30, 31, 30, 31] ! (m - 1)
                                             + (if m - 1 = 2 \<and> leapyear then 1 else 0))) + 1))
              else (y, m, nat (n - preceding + 1)))"

text \<open>
  A time zone of the pytz database, as far as the program uses it: \<open>localize\<close> picks
  the offset from UTC, in minutes, that the zone has at a local time, or raises
  \<open>OverflowError\<close> (\<open>None\<close>) at the ends of the calendar. The database itself is a
  parameter: \<open>pytz.timezone(name)\<close> is \<open>None\<close> for an unknown name.
\<close>

type_synonym zone = "datetime \<Rightarrow> int option"

type_synonym tzdb = "string \<Rightarrow> zone option"

text \<open>\<open>timezone.localize(naive).astimezone(pytz.utc)\<close>: local time minus its offset,
  \<open>OverflowError\<close> when the result leaves the years 1 to 9999.\<close>

definition to_utc :: "zone \<Rightarrow> datetime \<Rightarrow> exn + datetime" where
  "to_utc z dt =
     (case z dt of
        None \<Rightarrow> Inl OverflowError
      | Some off \<Rightarrow>
          let total = ymd2ord (year dt) (month dt) (day dt) * 1440
                        + int (hour dt) * 60 + int (minute dt) - off;
              days = total div 1440;
              rem = total mod 1440
          in if 0 < days \<and> days \<le> 3652059
             then (case ord2ymd days of (y, m, d) \<Rightarrow>
                     Inr \<lparr>year = y, month = m, day = d,
                          hour = nat (rem div 60), minute = nat (rem mod 60)\<rparr>)
             else Inl OverflowError)"

text \<open>Order of two datetimes in UTC, as \<open><=\<close> compares them.\<close>

definition dt_le :: "datetime \<Rightarrow> datetime \<Rightarrow> bool" where
  "dt_le a b =
     ((year a, month a, day a, hour a, minute a) \<le> (year b, month b, day b, hour b, minute b))"

subsection \<open>\<open>isoformat()\<close> and \<open>replace("+00:00", "Z")\<close>\<close>

definition digit_char :: "nat \<Rightarrow> char" where
  "digit_char n = ''0123456789'' ! (n mod 10)"

fun dec :: "nat \<Rightarrow> string" where
  "dec n = (if n < 10 then [digit_char n] else dec (n div 10) @ [digit_char n])"

declare dec.simps [simp del]

text \<open>\<open>%0wd\<close>: decimal digits, filled with zeros on the left up to the width.\<close>

definition zero_pad :: "nat \<Rightarrow> nat \<Rightarrow> string" where
  "zero_pad w n = replicate (w - length (dec n)) CHR ''0'' @ dec n"

text \<open>\<open>isoformat()\<close> of a datetime in UTC: date, \<open>T\<close>, time with seconds, and the offset
  of UTC written \<open>+00:00\<close>.\<close>

definition isoformat :: "datetime \<Rightarrow> string" where
  "isoformat dt =
     zero_pad 4 (year dt) @ ''-'' @ zero_pad 2 (month dt) @ ''-'' @ zero_pad 2 (day dt) @ ''T''
       @ zero_pad 2 (hour dt) @ '':'' @ zero_pad 2 (minute dt) @ '':'' @ zero_pad 2 0 @ ''+00:00''"

text \<open>\<open>s.replace(old, new)\<close>: every occurrence, left to right, without overlap. With an
  empty \<open>old\<close> Python puts \<open>new\<close> before every character and at the end.\<close>

function replace_from :: "string \<Rightarrow> string \<Rightarrow> string \<Rightarrow> string" where
  "replace_from old new s =
     (if old = [] \<or> s = [] then s
      else if prefix old s then new @ replace_from old new (drop (length old) s)
      else hd s # replace_from old new (tl s))"
  by pat_completeness auto
termination
  by (relation "measure (\<lambda>(old, new, s). length s)") (auto simp: neq_Nil_conv)

declare replace_from.simps [simp del]

definition py_replace :: "string \<Rightarrow> string \<Rightarrow> string \<Rightarrow> string" where
  "py_replace s old new =
     (if old = [] then new @ concat (map (\<lambda>c. c # new) s) else replace_from old new s)"

subsection \<open>The window of a run\<close>

record window =
  start_time :: datetime
  end_time :: datetime
  start_time_iso :: string
  end_time_iso :: string

text \<open>
  The part of \<open>main\<close> between the flag checks and the credentials (the same in all three
  programs): \<open>UnknownTimeZoneError\<close> and \<open>ValueError\<close> end in \<open>sys.exit(1)\<close>, an
  \<open>OverflowError\<close> is not caught.
\<close>

definition time_window :: "tzdb \<Rightarrow> string \<Rightarrow> string \<Rightarrow> string \<Rightarrow> window outcome" where
  "time_window db tzname start end =
     (case db tzname of
        None \<Rightarrow> SysExit 1
      | Some timezone \<Rightarrow>
         (case strptime start of
            None \<Rightarrow> SysExit 1
          | Some start_time_naive \<Rightarrow>
             (case strptime end of
                None \<Rightarrow> SysExit 1
              | Some end_time_naive \<Rightarrow>
                 (case to_utc timezone start_time_naive of
                    Inl e \<Rightarrow> Raised e
                  | Inr st \<Rightarrow>
                     (case to_utc timezone end_time_naive of
                        Inl e \<Rightarrow> Raised e
                      | Inr et \<Rightarrow>
                          Returned \<lparr>start_time = st, end_time = et,
                            start_time_iso = py_replace (isoformat st) ''+00:00'' ''Z'',
                            end_time_iso = py_replace (isoformat et) ''+00:00'' ''Z''\<rparr>)))))"

section \<open>Deletion: \<open>delete_event\<close> and \<open>delete_events\<close>\<close>

text \<open>
  \<open>delete_events\<close> creates one coroutine \<open>delete_event\<close> per event and awaits them all
  with \<open>asyncio.gather\<close>; they share \<open>asyncio.Semaphore(3)\<close>. A coroutine is suspended
  at three places: entering \<open>async with semaphore\<close> (until a slot is free), awaiting the
  response of \<open>session.delete\<close>, and \<open>asyncio.sleep\<close>, after which it leaves the
  \<open>async with\<close> block and gives the slot back. A run of the event loop is a schedule: the
  list of the resumptions, each naming the task it resumes.
\<close>

datatype task_state = Waiting | InFlight | Sleeping | Done

datatype action = Acquire nat | Respond nat | Release nat

text \<open>The lines a run prints about deletions, with the event id and the status kept as
  values instead of formatted text.\<close>

datatype line = Deleted pyval | CouldNotDelete pyval nat string

record purge =
  tasks :: "(pyval \<times> task_state) list"
  permits :: nat
  requests :: "pyval list"
  printed :: "line list"

text \<open>What a coroutine prints for a response. msgraph_cleaner.py and cleaner.py print a
  line for either outcome; google_cleaner.py prints nothing for status 204.\<close>

type_synonym reporter = "pyval \<Rightarrow> nat \<Rightarrow> string \<Rightarrow> line list"

definition msgraph_report :: reporter where
  "msgraph_report event_id status text =
     (if status = 204 then [Deleted event_id] else [CouldNotDelete event_id status text])"

definition google_report :: reporter where
  "google_report event_id status text =
     (if status = 204 then [] else [CouldNotDelete event_id status text])"

text \<open>The provider's answers to the delete calls: status and body text for each task.
  Every delete call is taken to be answered; a connection that fails is not modelled.\<close>

type_synonym delete_responses = "nat \<Rightarrow> nat \<times> string"

text \<open>One resumption of the coroutine of task \<open>i\<close>. A resumption that the state of the
  task or of the semaphore does not allow leaves everything as it is.\<close>

fun delete_event :: "reporter \<Rightarrow> delete_responses \<Rightarrow> action \<Rightarrow> purge \<Rightarrow> purge" where
  "delete_event report resp (Acquire i) s =
     (if i < length (tasks s) \<and> snd (tasks s ! i) = Waiting \<and> 0 < permits s
      then s\<lparr>tasks := (tasks s)[i := (fst (tasks s ! i), InFlight)],
             permits := permits s - 1,
             requests := requests s @ [fst (tasks s ! i)]\<rparr>
      else s)"
| "delete_event report resp (Respond i) s =
     (if i < length (tasks s) \<and> snd (tasks s ! i) = InFlight
      then s\<lparr>tasks := (tasks s)[i := (fst (tasks s ! i), Sleeping)],
             printed := printed s @ report (fst (tasks s ! i)) (fst (resp i)) (snd (resp i))\<rparr>
      else s)"
| "delete_event report resp (Release i) s =
     (if i < length (tasks s) \<and> snd (tasks s ! i) = Sleeping
      then s\<lparr>tasks := (tasks s)[i := (fst (tasks s ! i), Done)],
             permits := permits s + 1\<rparr>
      else s)"

text \<open>\<open>semaphore = asyncio.Semaphore(3)\<close> and the list of tasks, none started.\<close>

definition new_purge :: "pyval list \<Rightarrow> purge" where
  "new_purge ids = \<lparr>tasks = map (\<lambda>event_id. (event_id, Waiting)) ids, permits = 3,
                      requests = [], printed = []\<rparr>"

definition gather :: "reporter \<Rightarrow> delete_responses \<Rightarrow> action list \<Rightarrow> purge \<Rightarrow> purge" where
  "gather report resp sched s = foldl (\<lambda>s a. delete_event report resp a s) s sched"

definition all_done :: "purge \<Rightarrow> bool" where
  "all_done s = list_all (\<lambda>t. snd t = Done) (tasks s)"

text \<open>Requests that hold a slot of the semaphore: sent and not yet answered, or answered
  with the slot not yet given back.\<close>

definition outstanding :: "purge \<Rightarrow> nat" where
  "outstanding s = length (filter (\<lambda>t. snd t = InFlight \<or> snd t = Sleeping) (tasks s))"

text \<open>\<open>[... event['id'] ... for event in events]\<close>: the first event without an id raises
  before any task exists.\<close>

fun event_ids :: "pyval list \<Rightarrow> exn + pyval list" where
  "event_ids [] = Inr []"
| "event_ids (event # rest) =
     (case py_getitem event ''id'' of
        Inl e \<Rightarrow> Inl e
      | Inr event_id \<Rightarrow> (case event_ids rest of Inl e \<Rightarrow> Inl e | Inr ids \<Rightarrow> Inr (event_id # ids)))"

text \<open>
  \<open>delete_events\<close> under a schedule: the exception of the list comprehension, or the
  value the coroutine has returned together with the state of the purge. The value is
  Python's \<open>None\<close> once every task is done (the result of \<open>gather\<close> is dropped and the
  function has no \<open>return\<close>), and absent while \<open>gather\<close> is still awaited.
\<close>

definition delete_events ::
    "reporter \<Rightarrow> pyval list \<Rightarrow> delete_responses \<Rightarrow> action list \<Rightarrow> exn + (pyval option \<times> purge)" where
  "delete_events report events resp sched =
     (case event_ids events of
        Inl e \<Rightarrow> Inl e
      | Inr ids \<Rightarrow>
          let s = gather report resp sched (new_purge ids)
          in Inr (if all_done s then Some PyNone else None, s))"

text \<open>The loop that follows \<open>gather\<close> in \<open>main\<close> of cleaner.py: one blocking
  \<open>requests.delete\<close> per event, in order; \<open>k\<close> counts the calls.\<close>

fun delete_again :: "delete_responses \<Rightarrow> nat \<Rightarrow> pyval list \<Rightarrow> purge \<Rightarrow> purge" where
  "delete_again resp k [] s = s"
| "delete_again resp k (event_id # rest) s =
     delete_again resp (Suc k) rest
       (s\<lparr>requests := requests s @ [event_id],
          printed := printed s @ msgraph_report event_id (fst (resp k)) (snd (resp k))\<rparr>)"

section \<open>The three programs\<close>

text \<open>
  The command line after \<open>argparse\<close>: an option that is not given is \<open>None\<close>
  (\<open>--timezone\<close> has a default, \<open>--clean\<close> is a flag).
\<close>

record args =
  start_arg :: "string option"
  end_arg :: "string option"
  timezone_arg :: string
  clean_arg :: bool

text \<open>
  What the program meets outside itself during one run: the time zone database, whether
  the token cache file exists, whether signing in yields a token, the answers of the
  listing endpoint and of the delete endpoint (to the concurrent calls and, in
  cleaner.py, to the second round of calls), and the schedule of the event loop.
\<close>

record world =
  timezones :: tzdb
  token_file :: bool
  token_ok :: bool
  listing :: "get_outcome list"
  deletes :: delete_responses
  deletes_again :: delete_responses
  schedule :: "action list"

text \<open>
  What one run does: how the process ends (\<open>Returned ()\<close> is the normal end with exit
  status 0; \<open>None\<close> means the script or the schedule ended first), whether the token cache
  file was removed, whether the program signed in, whether it called the listing
  endpoint, and the purge, if one was started.
\<close>

record run =
  ending :: "unit outcome option"
  cache_cleaned :: bool
  signed_in :: bool
  listed :: bool
  purged :: "purge option"

definition no_run :: run where
  "no_run = \<lparr>ending = None, cache_cleaned = False, signed_in = False, listed = False,
             purged = None\<rparr>"

definition stop :: "unit outcome \<Rightarrow> run \<Rightarrow> run" where
  "stop e r = r\<lparr>ending := Some e\<rparr>"

text \<open>\<open>not args.start\<close>: the option is missing or empty.\<close>

definition falsy :: "string option \<Rightarrow> bool" where
  "falsy a = (a = None \<or> a = Some [])"

subsection \<open>msgraph_cleaner.py\<close>

text \<open>
  \<open>main\<close> of msgraph_cleaner.py. With \<open>--clean\<close> it calls \<open>CalendarCleaner.clean_cache()\<close>
  on the class; \<open>clean_cache\<close> is declared with the parameter \<open>self\<close> and is not a static
  method, so the call raises \<open>TypeError\<close> before the body runs. The constructor of
  \<open>CalendarCleaner\<close> raises when no token is acquired.
\<close>

definition msgraph_main :: "world \<Rightarrow> args \<Rightarrow> run" where
  "msgraph_main w a =
     (if \<not> clean_arg a \<and> (falsy (start_arg a) \<or> falsy (end_arg a)) then stop (SysExit 1) no_run
      else if clean_arg a then stop (Raised TypeError) no_run
      else (case (start_arg a, end_arg a) of
          (Some start, Some end') \<Rightarrow>
           (case time_window (timezones w) (timezone_arg a) start end' of
              SysExit c \<Rightarrow> stop (SysExit c) no_run
            | Raised e \<Rightarrow> stop (Raised e) no_run
            | Returned win \<Rightarrow>
               if \<not> token_ok w then stop (Raised AuthError) (no_run\<lparr>signed_in := True\<rparr>)
               else (case fetch_events (start_time_iso win) (end_time_iso win) (listing w) of
                  None \<Rightarrow> no_run\<lparr>signed_in := True, listed := True\<rparr>
                | Some (SysExit c) \<Rightarrow> stop (SysExit c) (no_run\<lparr>signed_in := True, listed := True\<rparr>)
                | Some (Raised e) \<Rightarrow> stop (Raised e) (no_run\<lparr>signed_in := True, listed := True\<rparr>)
                | Some (Returned events) \<Rightarrow>
                   (case delete_events msgraph_report events (deletes w) (schedule w) of
                      Inl e \<Rightarrow> stop (Raised e) (no_run\<lparr>signed_in := True, listed := True\<rparr>)
                    | Inr (None, s) \<Rightarrow> no_run\<lparr>signed_in := True, listed := True, purged := Some s\<rparr>
                    | Inr (Some v, s) \<Rightarrow>
                        stop (Returned ()) (no_run\<lparr>signed_in := True, listed := True, purged := Some s\<rparr>))))
        | _ \<Rightarrow> stop (Raised TypeError) no_run))"

subsection \<open>google_cleaner.py\<close>

text \<open>
  \<open>GoogleCalendarCleaner.fetch_events\<close>: one listing call; the client library raises
  \<open>HttpError\<close> for a status of 300 or more, and the events are
  \<open>events_result.get('items', [])\<close>.
\<close>

definition google_fetch_events :: "get_outcome list \<Rightarrow> pyval list outcome option" where
  "google_fetch_events script =
     (case script of
        [] \<Rightarrow> None
      | GetRaises # rest \<Rightarrow> Some (Raised RequestException)
      | Response st body # rest \<Rightarrow>
          if 300 \<le> st then Some (Raised HttpError)
          else (case body of
              Some (PyDict kv) \<Rightarrow>
               (case py_iter (case map_of kv ''items'' of None \<Rightarrow> PyList [] | Some v \<Rightarrow> v) of
                  Inl e \<Rightarrow> Some (Raised e)
                | Inr events \<Rightarrow> Some (Returned events))
            | _ \<Rightarrow> Some (Raised JSONDecodeError)))"

text \<open>
  \<open>main\<close> of google_cleaner.py. With \<open>--clean\<close> it removes \<open>token.json\<close>
  (\<open>os.remove\<close> raises \<open>FileNotFoundError\<close> when the file is missing), and then the
  statement \<open>sys.exit\<close> names the function without calling it, so the run goes on.
\<close>

definition google_main :: "world \<Rightarrow> args \<Rightarrow> run" where
  "google_main w a =
     (if clean_arg a \<and> \<not> token_file w then stop (Raised FileNotFoundError) no_run
      else
        let r = no_run\<lparr>cache_cleaned := clean_arg a\<rparr> in
        if falsy (start_arg a) \<or> falsy (end_arg a) then stop (SysExit 1) r
        else (case (start_arg a, end_arg a) of
            (Some start, Some end') \<Rightarrow>
             (case time_window (timezones w) (timezone_arg a) start end' of
                SysExit c \<Rightarrow> stop (SysExit c) r
              | Raised e \<Rightarrow> stop (Raised e) r
              | Returned win \<Rightarrow>
                 if \<not> token_ok w then stop (Raised AuthError) (r\<lparr>signed_in := True\<rparr>)
                 else (case google_fetch_events (listing w) of
                    None \<Rightarrow> r\<lparr>signed_in := True, listed := True\<rparr>
                  | Some (SysExit c) \<Rightarrow> stop (SysExit c) (r\<lparr>signed_in := True, listed := True\<rparr>)
                  | Some (Raised e) \<Rightarrow> stop (Raised e) (r\<lparr>signed_in := True, listed := True\<rparr>)
                  | Some (Returned events) \<Rightarrow>
                     (case delete_events google_report events (deletes w) (schedule w) of
                        Inl e \<Rightarrow> stop (Raised e) (r\<lparr>signed_in := True, listed := True\<rparr>)
                      | Inr (None, s) \<Rightarrow> r\<lparr>signed_in := True, listed := True, purged := Some s\<rparr>
                      | Inr (Some v, s) \<Rightarrow>
                          stop (Returned ()) (r\<lparr>signed_in := True, listed := True, purged := Some s\<rparr>))))
          | _ \<Rightarrow> stop (Raised TypeError) r))"

subsection \<open>cleaner.py\<close>

text \<open>
  \<open>main\<close> of cleaner.py: \<open>--start\<close> and \<open>--end\<close> are required (\<open>argparse\<close> leaves with
  status 2 without them), there is no \<open>--clean\<close>, a failed sign-in ends in \<open>sys.exit(1)\<close>,
  the listing loop is the one of \<open>fetch_events\<close>, and after \<open>gather\<close> a second loop sends
  a blocking delete for every event.
\<close>

definition cleaner_main :: "world \<Rightarrow> args \<Rightarrow> run" where
  "cleaner_main w a =
     (case (start_arg a, end_arg a) of
        (Some start, Some end') \<Rightarrow>
         (case time_window (timezones w) (timezone_arg a) start end' of
            SysExit c \<Rightarrow> stop (SysExit c) no_run
          | Raised e \<Rightarrow> stop (Raised e) no_run
          | Returned win \<Rightarrow>
             if \<not> token_ok w then stop (SysExit 1) (no_run\<lparr>signed_in := True\<rparr>)
             else (case fetch_events (start_time_iso win) (end_time_iso win) (listing w) of
                None \<Rightarrow> no_run\<lparr>signed_in := True, listed := True\<rparr>
              | Some (SysExit c) \<Rightarrow> stop (SysExit c) (no_run\<lparr>signed_in := True, listed := True\<rparr>)
              | Some (Raised e) \<Rightarrow> stop (Raised e) (no_run\<lparr>signed_in := True, listed := True\<rparr>)
              | Some (Returned events) \<Rightarrow>
                 (case delete_events msgraph_report events (deletes w) (schedule w) of
                    Inl e \<Rightarrow> stop (Raised e) (no_run\<lparr>signed_in := True, listed := True\<rparr>)
                  | Inr (None, s) \<Rightarrow> no_run\<lparr>signed_in := True, listed := True, purged := Some s\<rparr>
                  | Inr (Some v, s) \<Rightarrow>
                      stop (Returned ())
                        (no_run\<lparr>signed_in := True, listed := True,
                           purged := Some (delete_again (deletes_again w) 0 (map fst (tasks s)) s)\<rparr>))))
      | _ \<Rightarrow> stop (SysExit 2) no_run)"

section \<open>Notions used in the statements\<close>

text \<open>The events a listing response contributes to the batch, and its continuation
  cursor, read the way the loop of \<open>fetch_events\<close> reads them.\<close>

definition page_items :: "get_outcome \<Rightarrow> pyval list" where
  "page_items r =
     (case r of
        Response st (Some (PyDict kv)) \<Rightarrow>
          (case map_of kv ''value'' of
             Some v \<Rightarrow> (case py_iter v of Inr items \<Rightarrow> items | Inl e \<Rightarrow> [])
           | None \<Rightarrow> [])
      | _ \<Rightarrow> [])"

definition page_cursor :: "get_outcome \<Rightarrow> pyval" where
  "page_cursor r =
     (case r of Response st (Some (PyDict kv)) \<Rightarrow> dict_get kv ''@odata.nextLink'' | _ \<Rightarrow> PyNone)"


text \<open>A task whose response has been observed, and a task whose request has been sent.\<close>

definition answered :: "pyval \<times> task_state \<Rightarrow> bool" where
  "answered t = (snd t = Sleeping \<or> snd t = Done)"

definition started :: "pyval \<times> task_state \<Rightarrow> bool" where
  "started t = (snd t \<noteq> Waiting)"

text \<open>The resumptions a task still needs before it is done, and their sum over the
  tasks of a purge.\<close>

fun steps_left :: "task_state \<Rightarrow> nat" where
  "steps_left Waiting = 3"
| "steps_left InFlight = 2"
| "steps_left Sleeping = 1"
| "steps_left Done = 0"

definition remaining :: "purge \<Rightarrow> nat" where
  "remaining s = sum_list (map (\<lambda>t. steps_left (snd t)) (tasks s))"

text \<open>The text of \<open>isoformat()\<close> before the offset.\<close>

definition iso_body :: "datetime \<Rightarrow> string" where
  "iso_body dt =
     zero_pad 4 (year dt) @ ''-'' @ zero_pad 2 (month dt) @ ''-'' @ zero_pad 2 (day dt) @ ''T''
       @ zero_pad 2 (hour dt) @ '':'' @ zero_pad 2 (minute dt) @ '':'' @ zero_pad 2 0"

text \<open>The window with its two bounds exchanged.\<close>

definition swapped :: "window \<Rightarrow> window" where
  "swapped w = \<lparr>start_time = end_time w, end_time = start_time w,
                 start_time_iso = end_time_iso w, end_time_iso = start_time_iso w\<rparr>"

section \<open>Concrete runs\<close>

text \<open>A database that knows the zone \<open>UTC\<close> only, whose offset is zero.\<close>

definition utc_zone :: zone where
  "utc_zone dt = Some 0"

definition utc_only :: tzdb where
  "utc_only name = (if name = ''UTC'' then Some utc_zone else None)"

definition event_a :: pyval where
  "event_a = PyDict [(''id'', PyStr ''a'')]"

definition event_b :: pyval where
  "event_b = PyDict [(''id'', PyStr ''b'')]"

text \<open>A listing page: status 200 with the events and, if there is one, the next link.\<close>

definition page :: "pyval list \<Rightarrow> string option \<Rightarrow> get_outcome" where
  "page events link =
     Response 200 (Some (PyDict ((''value'', PyList events)
        # (case link of None \<Rightarrow> [] | Some l \<Rightarrow> [(''@odata.nextLink'', PyStr l)]))))"

definition all_204 :: delete_responses where
  "all_204 i = (204, [])"

definition all_404 :: delete_responses where
  "all_404 i = (404, ''not found'')"

text \<open>The schedule of a purge of one event: acquire, response, release.\<close>

definition one_task :: "action list" where
  "one_task = [Acquire 0, Respond 0, Release 0]"

definition purge_args :: args where
  "purge_args = \<lparr>start_arg = Some ''2023-01-01 00:00'', end_arg = Some ''2023-01-02 00:00'',
                  timezone_arg = ''UTC'', clean_arg = False\<rparr>"

definition clean_purge_args :: args where
  "clean_purge_args = \<lparr>start_arg = Some ''2023-01-01 00:00'', end_arg = Some ''2023-01-02 00:00'',
                        timezone_arg = ''UTC'', clean_arg = True\<rparr>"

definition clean_args :: args where
  "clean_args = \<lparr>start_arg = None, end_arg = None, timezone_arg = ''Europe/Helsinki'',
                  clean_arg = True\<rparr>"

text \<open>A provider with the single event \<open>a\<close> on one page, every delete answered 204 the
  first time and 404 the second time.\<close>

definition one_event_world :: world where
  "one_event_world = \<lparr>timezones = utc_only, token_file = True, token_ok = True,
       listing = [page [event_a] None], deletes = all_204, deletes_again = all_404,
       schedule = one_task\<rparr>"

text \<open>The same provider when the listing is a Google response.\<close>

definition google_world :: world where
  "google_world = \<lparr>timezones = utc_only, token_file = True, token_ok = True,
       listing = [Response 200 (Some (PyDict [(''items'', PyList [event_a])]))],
       deletes = all_204, deletes_again = all_404, schedule = one_task\<rparr>"


text \<open>A provider whose second listing page fails with status 500.\<close>

definition failing_world :: world where
  "failing_world = \<lparr>timezones = utc_only, token_file = True, token_ok = True,
       listing = [page [event_a] (Some ''next''), Response 500 None, page [event_b] None],
       deletes = all_204, deletes_again = all_404, schedule = one_task\<rparr>"

text \<open>A database with one more zone, \<open>Etc/GMT-2\<close>, two hours east of UTC all year.\<close>

definition plus_two :: zone where
  "plus_two dt = Some 120"

definition two_zones :: tzdb where
  "two_zones name =
     (if name = ''UTC'' then Some utc_zone else if name = ''Etc/GMT-2'' then Some plus_two else None)"

text \<open>The first two days of the calendar at midnight.\<close>

definition first_midnight :: datetime where
  "first_midnight = \<lparr>year = 1, month = 1, day = 1, hour = 0, minute = 0\<rparr>"

definition second_midnight :: datetime where
  "second_midnight = \<lparr>year = 1, month = 1, day = 2, hour = 0, minute = 0\<rparr>"

text \<open>The first two days of 2023 at midnight, and the window from one to the other.\<close>

definition jan_1 :: datetime where
  "jan_1 = \<lparr>year = 2023, month = 1, day = 1, hour = 0, minute = 0\<rparr>"

definition jan_2 :: datetime where
  "jan_2 = \<lparr>year = 2023, month = 1, day = 2, hour = 0, minute = 0\<rparr>"

definition first_day :: window where
  "first_day = \<lparr>start_time = jan_1, end_time = jan_2,
                 start_time_iso = ''2023-01-01T00:00:00Z'', end_time_iso = ''2023-01-02T00:00:00Z''\<rparr>"

section \<open>Enumeration: properties of the listing loop\<close>

lemma fetch_loop_stop:
  "\<not> truthy l \<or> length evs > 9500 \<Longrightarrow> fetch_loop evs l script = Some (Returned evs)"
  by (auto simp: fetch_loop.simps)

lemma fetch_loop_None_iff_Nil:
  "fetch_loop evs l [] = None \<longleftrightarrow> truthy l \<and> length evs \<le> 9500"
  by (auto simp: fetch_loop.simps)

text \<open>The text of the link plays no part, only its truth value.\<close>

lemma fetch_loop_link:
  assumes "truthy l" "truthy l'"
  shows "fetch_loop evs l script = fetch_loop evs l' script"
  using assms by (subst (1 2) fetch_loop.simps) simp

lemma first_link_truthy: "truthy (first_link s e)"
  by (simp add: first_link_def)

lemma fetch_events_link: "fetch_events s e script = fetch_events s' e' script"
  unfolding fetch_events_def
  by (rule fetch_loop_link) (rule first_link_truthy)+

lemma fetch_loop_page:
  assumes "truthy l" "length evs \<le> 9500" "\<not> is_http_error st"
    "map_of kv ''value'' = Some v" "py_iter v = Inr items"
  shows "fetch_loop evs l (Response st (Some (PyDict kv)) # rest)
         = fetch_loop (evs @ items) (dict_get kv ''@odata.nextLink'') rest"
  using assms by (subst fetch_loop.simps) simp

text \<open>A run that returns a batch has appended the first response as a page and gone on
  with its cursor.\<close>

lemma fetch_loop_Cons_cases:
  assumes "fetch_loop evs l (r # rest) = Some (Returned out)" "truthy l" "length evs \<le> 9500"
  shows "fetch_loop (evs @ page_items r) (page_cursor r) rest = Some (Returned out)"
  using assms
  apply (subst (asm) fetch_loop.simps)
  apply (auto simp: page_items_def page_cursor_def
      split: get_outcome.splits if_splits option.splits sum.splits pyval.splits)
  done


text \<open>When the loop has used up a script and asks for more, it goes on from some
  accumulator below the cap and some cursor.\<close>

lemma fetch_loop_continue:
  assumes "fetch_loop evs l pre = None"
  shows "\<exists>evs' l'. truthy l' \<and> length evs' \<le> 9500
           \<and> (\<forall>rest. fetch_loop evs l (pre @ rest) = fetch_loop evs' l' rest)"
  using assms
proof (induction pre arbitrary: evs l)
  case Nil
  then show ?case by (auto simp: fetch_loop_None_iff_Nil)
next
  case (Cons r pre)
  from Cons.prems have tl: "truthy l" "length evs \<le> 9500"
    by (auto simp: fetch_loop.simps split: if_splits)
  from Cons.prems tl obtain st kv v items where r: "r = Response st (Some (PyDict kv))"
    "\<not> is_http_error st" "map_of kv ''value'' = Some v" "py_iter v = Inr items"
    by (subst (asm) fetch_loop.simps)
      (auto split: get_outcome.splits if_splits option.splits sum.splits pyval.splits)
  have "fetch_loop (evs @ items) (dict_get kv ''@odata.nextLink'') pre = None"
    using Cons.prems fetch_loop_page[OF tl r(2,3,4)] unfolding r(1) by simp
  from Cons.IH[OF this] obtain evs' l' where "truthy l'" "length evs' \<le> 9500"
    "\<forall>rest. fetch_loop (evs @ items) (dict_get kv ''@odata.nextLink'') (pre @ rest)
              = fetch_loop evs' l' rest"
    by blast
  then show ?case
    using fetch_loop_page[OF tl r(2,3,4)] unfolding r(1)
    by (intro exI[of _ evs'] exI[of _ l']) simp
qed

lemma fetch_loop_error_after:
  assumes "fetch_loop evs l pre = None" "is_http_error st"
  shows "fetch_loop evs l (pre @ Response st body # post) = Some (SysExit 1)"
proof -
  from fetch_loop_continue[OF assms(1)] obtain evs' l' where "truthy l'" "length evs' \<le> 9500"
    "\<forall>rest. fetch_loop evs l (pre @ rest) = fetch_loop evs' l' rest" by blast
  then show ?thesis using assms(2) by (simp add: fetch_loop.simps)
qed

lemma fetch_loop_bound:
  assumes "fetch_loop evs l script = Some (Returned out)"
    "\<forall>r \<in> set script. length (page_items r) \<le> n" "length evs \<le> 9500 + n"
  shows "length out \<le> 9500 + n"
  using assms
proof (induction script arbitrary: evs l)
  case Nil
  then show ?case by (auto simp: fetch_loop.simps split: if_splits)
next
  case (Cons r rest)
  show ?case
  proof (cases "truthy l \<and> length evs \<le> 9500")
    case False
    then have "out = evs" using Cons.prems(1) fetch_loop_stop[of l evs "r # rest"] by auto
    then show ?thesis using Cons.prems by simp
  next
    case True
    then have "fetch_loop (evs @ page_items r) (page_cursor r) rest = Some (Returned out)"
      using Cons.prems(1) fetch_loop_Cons_cases by blast
    moreover have "length (evs @ page_items r) \<le> 9500 + n" using True Cons.prems(2) by simp
    ultimately show ?thesis using Cons.IH Cons.prems(2) by simp
  qed
qed

lemma page_eval:
  "page_items (page events link) = events"
  "page_cursor (page events None) = PyNone"
  "page_cursor (page events (Some l)) = PyStr l"
  by (simp_all add: page_items_def page_cursor_def page_def dict_get_def)

lemma fetch_loop_page_step:
  assumes "truthy l" "length evs \<le> 9500"
  shows "fetch_loop evs l (page events link # rest)
       = fetch_loop (evs @ events) (page_cursor (page events link)) rest"
  using assms
  by (subst fetch_loop.simps)
    (simp add: page_def is_http_error_def page_cursor_def dict_get_def split: option.splits)

text \<open>
  Claim C4, as stated: the returned batch never holds more than 9500 events. It fails:
  the cap is tested before a page is fetched, with \<open>len(events) > 9500\<close>, and a fetched
  page is appended whole. After a page that brings the count to exactly 9500 the loop
  fetches the next page, and here returns 9501 events.
\<close>

theorem cap_exceeded_counterexample:
  "fetch_events ''s'' ''e'' [page (replicate 9500 event_a) (Some ''next''), page [event_a] None]
     = Some (Returned (replicate 9500 event_a @ [event_a]))
   \<and> \<not> length (replicate 9500 event_a @ [event_a]) \<le> 9500"
  by (simp add: fetch_events_def first_link_truthy fetch_loop_page_step page_eval fetch_loop_stop)

text \<open>
  Claim C4, amended: the loop fetches no further page once the accumulated count exceeds
  9500, so a returned batch exceeds 9500 by at most one page: when no page of the script
  holds more than \<open>n\<close> events, the batch holds at most \<open>9500 + n\<close> (10000 for pages of at
  most 500 events).
\<close>

theorem batch_at_most_cap_plus_page:
  assumes "fetch_events s e script = Some (Returned batch)"
    and "\<forall>r \<in> set script. length (page_items r) \<le> n"
  shows "length batch \<le> 9500 + n"
  using fetch_loop_bound[of "[]" "first_link s e" script batch n] assms
  by (simp add: fetch_events_def)

theorem batch_at_most_cap_plus_page_witness:
  "fetch_events ''s'' ''e'' [page [event_a, event_b] None] = Some (Returned [event_a, event_b])
   \<and> length (page_items (page [event_a, event_b] None)) \<le> 500
   \<and> length [event_a, event_b] \<le> 9500 + (500::nat)"
proof -
  have h1: "fetch_events ''s'' ''e'' [page [event_a, event_b] None] = Some (Returned [event_a, event_b])"
    by (simp add: fetch_events_def first_link_truthy fetch_loop_page_step page_eval fetch_loop_stop)
  have h2: "\<forall>r \<in> set [page [event_a, event_b] None]. length (page_items r) \<le> 500"
    by (simp add: page_eval)
  from batch_at_most_cap_plus_page[OF h1 h2] h1 h2 show ?thesis by simp
qed








text \<open>
  Claim C10: a listing response with a success status whose JSON object has no key
  \<open>value\<close> makes \<open>fetch_events\<close> raise \<open>KeyError\<close>, whatever pages came before it; the
  exception is not an \<open>HTTPError\<close>, so nothing catches it: neither \<open>sys.exit(1)\<close> nor a
  batch.
\<close>

theorem missing_value_key_raises:
  assumes "fetch_events s e pre = None"
    and "\<not> is_http_error st"
    and "map_of kv ''value'' = None"
  shows "fetch_events s e (pre @ Response st (Some (PyDict kv)) # post)
       = Some (Raised (KeyError ''value''))"
proof -
  from assms(1) have "fetch_loop [] (first_link s e) pre = None"
    by (simp add: fetch_events_def)
  from fetch_loop_continue[OF this] obtain evs' l' where "truthy l'" "length evs' \<le> 9500"
    "\<forall>rest. fetch_loop [] (first_link s e) (pre @ rest) = fetch_loop evs' l' rest" by blast
  then show ?thesis using assms(2,3) by (simp add: fetch_events_def fetch_loop.simps)
qed

theorem missing_value_key_raises_witness:
  "fetch_events ''s'' ''e'' [page [event_a] (Some ''next'')] = None
   \<and> \<not> is_http_error 200
   \<and> map_of [(''error'', PyStr ''throttled'')] ''value'' = None
   \<and> fetch_events ''s'' ''e''
        ([page [event_a] (Some ''next'')] @ Response 200 (Some (PyDict [(''error'', PyStr ''throttled'')])) # [])
       = Some (Raised (KeyError ''value''))"
proof -
  have h1: "fetch_events ''s'' ''e'' [page [event_a] (Some ''next'')] = None"
    by (simp add: fetch_events_def first_link_truthy fetch_loop_page_step page_eval
        fetch_loop_None_iff_Nil)
  have h2: "\<not> is_http_error 200" by (simp add: is_http_error_def)
  have h3: "map_of [(''error'', PyStr ''throttled'')] ''value'' = None" by simp
  from missing_value_key_raises[OF h1 h2 h3, of "[]"] h1 h2 h3 show ?thesis by simp
qed

section \<open>Deletion: properties of the bounded fan-out\<close>

lemma update_split:
  assumes "i < length xs"
  shows "\<exists>a b. xs = a @ xs ! i # b \<and> xs[i := y] = a @ y # b"
  using assms id_take_nth_drop[of i xs] upd_conv_take_nth_drop[of i xs y] by blast

lemma tasks_new_purge: "map fst (tasks (new_purge ids)) = ids"
  by (simp add: new_purge_def comp_def)

lemma delete_event_ids: "map fst (tasks (delete_event report resp a s)) = map fst (tasks s)"
  by (cases a) (auto simp: map_update list_update_same_conv)

lemma gather_ids: "map fst (tasks (gather report resp sched s)) = map fst (tasks s)"
  unfolding gather_def
  by (induction sched arbitrary: s) (simp_all add: delete_event_ids)

subsection \<open>The semaphore\<close>

text \<open>Every resumption keeps the sum of the slots held and the slots free.\<close>

lemma delete_event_slots:
  assumes "outstanding s + permits s = 3"
  shows "outstanding (delete_event report resp a s) + permits (delete_event report resp a s) = 3"
proof (cases a)
  case (Acquire i)
  show ?thesis
  proof (cases "i < length (tasks s) \<and> snd (tasks s ! i) = Waiting \<and> 0 < permits s")
    case True
    then obtain x y where xy: "tasks s = x @ tasks s ! i # y"
      "(tasks s)[i := (fst (tasks s ! i), InFlight)] = x @ (fst (tasks s ! i), InFlight) # y"
      using update_split[of i "tasks s"] by blast
    have "outstanding s = length (filter (\<lambda>t. snd t = InFlight \<or> snd t = Sleeping) x)
        + length (filter (\<lambda>t. snd t = InFlight \<or> snd t = Sleeping) y)"
      unfolding outstanding_def by (subst xy(1)) (simp add: True)
    then show ?thesis using True assms Acquire xy(2) by (simp add: outstanding_def)
  next
    case False
    then show ?thesis using assms Acquire by auto
  qed
next
  case (Respond i)
  show ?thesis
  proof (cases "i < length (tasks s) \<and> snd (tasks s ! i) = InFlight")
    case True
    then obtain x y where xy: "tasks s = x @ tasks s ! i # y"
      "(tasks s)[i := (fst (tasks s ! i), Sleeping)] = x @ (fst (tasks s ! i), Sleeping) # y"
      using update_split[of i "tasks s"] by blast
    have "outstanding s = Suc (length (filter (\<lambda>t. snd t = InFlight \<or> snd t = Sleeping) x)
        + length (filter (\<lambda>t. snd t = InFlight \<or> snd t = Sleeping) y))"
      unfolding outstanding_def by (subst xy(1)) (simp add: True)
    then show ?thesis using True assms Respond xy(2) by (simp add: outstanding_def)
  next
    case False
    then show ?thesis using assms Respond by auto
  qed
next
  case (Release i)
  show ?thesis
  proof (cases "i < length (tasks s) \<and> snd (tasks s ! i) = Sleeping")
    case True
    then obtain x y where xy: "tasks s = x @ tasks s ! i # y"
      "(tasks s)[i := (fst (tasks s ! i), Done)] = x @ (fst (tasks s ! i), Done) # y"
      using update_split[of i "tasks s"] by blast
    have "outstanding s = Suc (length (filter (\<lambda>t. snd t = InFlight \<or> snd t = Sleeping) x)
        + length (filter (\<lambda>t. snd t = InFlight \<or> snd t = Sleeping) y))"
      unfolding outstanding_def by (subst xy(1)) (simp add: True)
    then show ?thesis using True assms Release xy(2) by (simp add: outstanding_def)
  next
    case False
    then show ?thesis using assms Release by auto
  qed
qed

lemma gather_slots:
  "outstanding s + permits s = 3 \<Longrightarrow>
   outstanding (gather report resp sched s) + permits (gather report resp sched s) = 3"
  unfolding gather_def
  by (induction sched arbitrary: s) (simp_all add: delete_event_slots)

lemma new_purge_slots: "outstanding (new_purge ids) + permits (new_purge ids) = 3"
  by (simp add: new_purge_def outstanding_def comp_def)


text \<open>The bound is reached, and a fourth task cannot start while three hold a slot.\<close>

lemma three_outstanding_reached:
  "outstanding (gather msgraph_report all_204 [Acquire 0, Acquire 1, Acquire 2, Acquire 3]
      (new_purge [PyStr ''a'', PyStr ''b'', PyStr ''c'', PyStr ''d''])) = 3"
  by (simp add: gather_def new_purge_def outstanding_def)

subsection \<open>Requests and printed lines\<close>

lemma delete_event_requests:
  assumes "mset (requests s) = mset (map fst (filter started (tasks s)))"
  shows "mset (requests (delete_event report resp a s))
       = mset (map fst (filter started (tasks (delete_event report resp a s))))"
proof (cases a)
  case (Acquire i)
  show ?thesis
  proof (cases "i < length (tasks s) \<and> snd (tasks s ! i) = Waiting \<and> 0 < permits s")
    case True
    then obtain x y where xy: "tasks s = x @ tasks s ! i # y"
      "(tasks s)[i := (fst (tasks s ! i), InFlight)] = x @ (fst (tasks s ! i), InFlight) # y"
      using update_split[of i "tasks s"] by blast
    have "filter started (tasks s) = filter started x @ filter started y"
      by (subst xy(1)) (simp add: True started_def)
    then show ?thesis using True assms Acquire xy(2) by (simp add: started_def)
  next
    case False
    then show ?thesis using assms Acquire by auto
  qed
next
  case (Respond i)
  show ?thesis
  proof (cases "i < length (tasks s) \<and> snd (tasks s ! i) = InFlight")
    case True
    then obtain x y where xy: "tasks s = x @ tasks s ! i # y"
      "(tasks s)[i := (fst (tasks s ! i), Sleeping)] = x @ (fst (tasks s ! i), Sleeping) # y"
      using update_split[of i "tasks s"] by blast
    have "filter started (tasks s) = filter started x @ tasks s ! i # filter started y"
      by (subst xy(1)) (simp add: True started_def)
    then show ?thesis using True assms Respond xy(2) by (simp add: started_def)
  next
    case False
    then show ?thesis using assms Respond by auto
  qed
next
  case (Release i)
  show ?thesis
  proof (cases "i < length (tasks s) \<and> snd (tasks s ! i) = Sleeping")
    case True
    then obtain x y where xy: "tasks s = x @ tasks s ! i # y"
      "(tasks s)[i := (fst (tasks s ! i), Done)] = x @ (fst (tasks s ! i), Done) # y"
      using update_split[of i "tasks s"] by blast
    have "filter started (tasks s) = filter started x @ tasks s ! i # filter started y"
      by (subst xy(1)) (simp add: True started_def)
    then show ?thesis using True assms Release xy(2) by (simp add: started_def)
  next
    case False
    then show ?thesis using assms Release by auto
  qed
qed

lemma gather_requests:
  "mset (requests s) = mset (map fst (filter started (tasks s))) \<Longrightarrow>
    mset (requests (gather report resp sched s))
       = mset (map fst (filter started (tasks (gather report resp sched s))))"
  unfolding gather_def
  by (induction sched arbitrary: s) (simp_all add: delete_event_requests)

lemma all_done_started: "all_done s \<Longrightarrow> filter started (tasks s) = tasks s"
  by (auto simp: all_done_def started_def list_all_iff filter_id_conv)

lemma all_done_answered: "all_done s \<Longrightarrow> filter answered (tasks s) = tasks s"
  by (auto simp: all_done_def answered_def list_all_iff filter_id_conv)

text \<open>\<open>delete_events\<close> alone, as msgraph_cleaner.py and google_cleaner.py run it, sends each
  id of the batch to the delete endpoint once.\<close>

lemma gather_sends_each_once:
  assumes "all_done (gather report resp sched (new_purge ids))"
  shows "mset (requests (gather report resp sched (new_purge ids))) = mset ids"
proof -
  let ?s = "gather report resp sched (new_purge ids)"
  have "mset (requests ?s) = mset (map fst (filter started (tasks ?s)))"
    by (rule gather_requests) (simp add: new_purge_def started_def)
  also have "\<dots> = mset (map fst (tasks ?s))" using all_done_started[OF assms] by simp
  also have "\<dots> = mset ids" by (simp add: gather_ids tasks_new_purge)
  finally show ?thesis .
qed

lemma delete_again_requests:
  "requests (delete_again resp k ids s) = requests s @ ids"
  by (induction ids arbitrary: k s) simp_all

lemma delete_event_printed:
  assumes "\<forall>i. fst (resp i) = 204"
    and "mset (printed s) = mset (map (\<lambda>t. Deleted (fst t)) (filter answered (tasks s)))"
  shows "mset (printed (delete_event msgraph_report resp a s))
       = mset (map (\<lambda>t. Deleted (fst t))
            (filter answered (tasks (delete_event msgraph_report resp a s))))"
proof (cases a)
  case (Acquire i)
  show ?thesis
  proof (cases "i < length (tasks s) \<and> snd (tasks s ! i) = Waiting \<and> 0 < permits s")
    case True
    then obtain x y where xy: "tasks s = x @ tasks s ! i # y"
      "(tasks s)[i := (fst (tasks s ! i), InFlight)] = x @ (fst (tasks s ! i), InFlight) # y"
      using update_split[of i "tasks s"] by blast
    have "filter answered (tasks s) = filter answered x @ filter answered y"
      by (subst xy(1)) (simp add: True answered_def)
    then show ?thesis using True assms(2) Acquire xy(2) by (simp add: answered_def)
  next
    case False
    then show ?thesis using assms(2) Acquire by auto
  qed
next
  case (Respond i)
  show ?thesis
  proof (cases "i < length (tasks s) \<and> snd (tasks s ! i) = InFlight")
    case True
    then obtain x y where xy: "tasks s = x @ tasks s ! i # y"
      "(tasks s)[i := (fst (tasks s ! i), Sleeping)] = x @ (fst (tasks s ! i), Sleeping) # y"
      using update_split[of i "tasks s"] by blast
    have "filter answered (tasks s) = filter answered x @ filter answered y"
      by (subst xy(1)) (simp add: True answered_def)
    then show ?thesis
      using True assms Respond xy(2) by (simp add: answered_def msgraph_report_def)
  next
    case False
    then show ?thesis using assms(2) Respond by auto
  qed
next
  case (Release i)
  show ?thesis
  proof (cases "i < length (tasks s) \<and> snd (tasks s ! i) = Sleeping")
    case True
    then obtain x y where xy: "tasks s = x @ tasks s ! i # y"
      "(tasks s)[i := (fst (tasks s ! i), Done)] = x @ (fst (tasks s ! i), Done) # y"
      using update_split[of i "tasks s"] by blast
    have "filter answered (tasks s) = filter answered x @ tasks s ! i # filter answered y"
      by (subst xy(1)) (simp add: True answered_def)
    then show ?thesis using True assms(2) Release xy(2) by (simp add: answered_def)
  next
    case False
    then show ?thesis using assms(2) Release by auto
  qed
qed

lemma gather_printed:
  assumes "\<forall>i. fst (resp i) = 204"
  shows "mset (printed s) = mset (map (\<lambda>t. Deleted (fst t)) (filter answered (tasks s))) \<Longrightarrow>
    mset (printed (gather msgraph_report resp sched s))
       = mset (map (\<lambda>t. Deleted (fst t))
            (filter answered (tasks (gather msgraph_report resp sched s))))"
  unfolding gather_def
  by (induction sched arbitrary: s) (simp_all add: delete_event_printed[OF assms])

lemma event_ids_length: "event_ids events = Inr ids \<Longrightarrow> length ids = length events"
  by (induction events arbitrary: ids) (auto split: sum.splits)

lemma delete_one_event:
  "delete_events msgraph_report [event_a] all_204 one_task
     = Inr (Some PyNone,
            \<lparr>tasks = [(PyStr ''a'', Done)], permits = 3, requests = [PyStr ''a''],
               printed = [Deleted (PyStr ''a'')]\<rparr>)"
  by (simp add: delete_events_def event_a_def all_204_def one_task_def gather_def new_purge_def
      all_done_def msgraph_report_def)

text \<open>
  Claim C3, as stated: when every delete call answers 204 the purge returns a report with
  the counts. It fails: \<open>delete_events\<close> has no \<open>return\<close> and drops the result of
  \<open>gather\<close>, so the value it returns is \<open>None\<close>; no report object exists in any of the
  three programs. For the batch of the single event \<open>a\<close>, answered 204:
\<close>

theorem no_report_counterexample:
  "delete_events msgraph_report [event_a] all_204 one_task
     = Inr (Some PyNone,
            \<lparr>tasks = [(PyStr ''a'', Done)], permits = 3, requests = [PyStr ''a''],
               printed = [Deleted (PyStr ''a'')]\<rparr>)
   \<and> PyNone \<noteq> PyDict [(''deletedCount'', PyInt 1), (''failedCount'', PyInt 0),
                        (''failures'', PyList [])]"
  by (simp add: delete_one_event)

subsection \<open>Every purge can finish\<close>

lemma remaining_update:
  assumes "i < length (tasks s)"
  shows "sum_list (map (\<lambda>t. steps_left (snd t)) ((tasks s)[i := (x, st)])) + steps_left (snd (tasks s ! i))
       = remaining s + steps_left st"
proof -
  from assms obtain a b where ab: "tasks s = a @ tasks s ! i # b"
    "(tasks s)[i := (x, st)] = a @ (x, st) # b"
    using update_split[of i "tasks s"] by blast
  have "remaining s = sum_list (map (\<lambda>t. steps_left (snd t)) a) + steps_left (snd (tasks s ! i))
      + sum_list (map (\<lambda>t. steps_left (snd t)) b)"
    unfolding remaining_def by (subst ab(1)) simp
  then show ?thesis by (simp add: ab(2))
qed

lemma remaining_zero: "remaining s = 0 \<longleftrightarrow> all_done s"
proof -
  have "steps_left st = 0 \<longleftrightarrow> st = Done" for st by (cases st) simp_all
  then show ?thesis by (auto simp: remaining_def all_done_def list_all_iff)
qed

lemma no_holder_no_outstanding:
  assumes "\<forall>t \<in> set (tasks s). snd t \<noteq> InFlight \<and> snd t \<noteq> Sleeping"
  shows "outstanding s = 0"
  using assms by (auto simp: outstanding_def filter_empty_conv)

text \<open>While a task is not done, some resumption brings the purge one step nearer to its
  end: a task in flight gets its response, a sleeping task gives its slot back, and when
  no task holds a slot all three are free and a waiting task takes one.\<close>

lemma some_step_advances:
  assumes "outstanding s + permits s = 3" "0 < remaining s"
  shows "\<exists>a. Suc (remaining (delete_event report resp a s)) = remaining s"
proof -
  consider (flight) i where "i < length (tasks s)" "snd (tasks s ! i) = InFlight"
    | (sleep) i where "i < length (tasks s)" "snd (tasks s ! i) = Sleeping"
    | (idle) "\<forall>t \<in> set (tasks s). snd t \<noteq> InFlight \<and> snd t \<noteq> Sleeping"
    by (metis in_set_conv_nth)
  then show ?thesis
  proof cases
    case flight
    then have "Suc (remaining (delete_event report resp (Respond i) s)) = remaining s"
      using remaining_update[OF flight(1), of "fst (tasks s ! i)" Sleeping]
      by (simp add: remaining_def)
    then show ?thesis by blast
  next
    case sleep
    then have "Suc (remaining (delete_event report resp (Release i) s)) = remaining s"
      using remaining_update[OF sleep(1), of "fst (tasks s ! i)" Done]
      by (simp add: remaining_def)
    then show ?thesis by blast
  next
    case idle
    then have p: "0 < permits s" using assms(1) no_holder_no_outstanding[of s] by simp
    from assms(2) have "\<not> all_done s" using remaining_zero[of s] by simp
    then obtain t where "t \<in> set (tasks s)" "snd t \<noteq> Done"
      by (auto simp: all_done_def list_all_iff)
    with idle have "t \<in> set (tasks s)" "snd t = Waiting" by (cases "snd t"; auto)+
    then obtain i where i: "i < length (tasks s)" "snd (tasks s ! i) = Waiting"
      by (metis in_set_conv_nth)
    then have "Suc (remaining (delete_event report resp (Acquire i) s)) = remaining s"
      using remaining_update[OF i(1), of "fst (tasks s ! i)" InFlight] p
      by (simp add: remaining_def)
    then show ?thesis by blast
  qed
qed

lemma gather_Cons: "gather report resp (a # sched) s = gather report resp sched (delete_event report resp a s)"
  by (simp add: gather_def)

lemma gather_append:
  "gather report resp (sched @ rest) s = gather report resp rest (gather report resp sched s)"
  by (simp add: gather_def)

lemma purge_can_finish:
  assumes "outstanding s + permits s = 3"
  shows "\<exists>rest. all_done (gather report resp rest s)"
  using assms
proof (induction "remaining s" arbitrary: s)
  case 0
  then have "all_done (gather report resp [] s)" by (simp add: remaining_zero gather_def)
  then show ?case by blast
next
  case (Suc n)
  have "0 < remaining s" using Suc.hyps(2) by simp
  from some_step_advances[OF Suc.prems this, of report resp]
  obtain a where "Suc (remaining (delete_event report resp a s)) = remaining s" by blast
  with Suc.hyps(2) have a: "n = remaining (delete_event report resp a s)" by simp
  from Suc.hyps(1)[OF a delete_event_slots[OF Suc.prems]] obtain rest where
    "all_done (gather report resp rest (delete_event report resp a s))" by blast
  then have "all_done (gather report resp (a # rest) s)" by (simp add: gather_Cons)
  then show ?case by blast
qed

lemma delete_events_can_finish:
  assumes "event_ids events = Inr ids"
  shows "\<exists>rest s. delete_events report events resp (sched @ rest) = Inr (Some PyNone, s)"
proof -
  from purge_can_finish[OF gather_slots[OF new_purge_slots], of report resp report resp sched ids]
  obtain rest where "all_done (gather report resp rest (gather report resp sched (new_purge ids)))"
    by blast
  then have "delete_events report events resp (sched @ rest)
      = Inr (Some PyNone, gather report resp (sched @ rest) (new_purge ids))"
    using assms by (simp add: delete_events_def gather_append Let_def)
  then show ?thesis by blast
qed

lemma event_a_id: "event_ids [event_a] = Inr [PyStr ''a'']"
  by (simp add: event_a_def)

text \<open>
  Claim C3, amended: for any batch of events with ids in which every delete call answers
  204, \<open>delete_events\<close> of msgraph_cleaner.py can run to its end from any point of any
  schedule, and when it has ended it has returned \<open>None\<close> and printed exactly one line
  \<open>Deleted event <id>\<close> for each event of the batch, in some order, and no line
  \<open>Could not delete event\<close>.
\<close>

theorem all_deleted_lines:
  assumes "event_ids events = Inr ids"
    and "\<forall>i. fst (resp i) = 204"
  shows "(\<exists>rest s. delete_events msgraph_report events resp (sched @ rest) = Inr (Some PyNone, s)
            \<and> length (printed s) = length events \<and> mset (printed s) = mset (map Deleted ids))
       \<and> (\<forall>v s. delete_events msgraph_report events resp sched = Inr (Some v, s) \<longrightarrow>
            v = PyNone \<and> length (printed s) = length events
              \<and> mset (printed s) = mset (map Deleted ids))"
proof -
  have fin: "v = PyNone \<and> length (printed s) = length events
              \<and> mset (printed s) = mset (map Deleted ids)"
    if d: "delete_events msgraph_report events resp sch = Inr (Some v, s)" for sch v s
  proof -
    from d assms(1) have s: "s = gather msgraph_report resp sch (new_purge ids)"
      and fin: "all_done s" and v: "v = PyNone"
      by (auto simp: delete_events_def Let_def split: sum.splits if_splits)
    have "mset (printed s) = mset (map (\<lambda>t. Deleted (fst t)) (filter answered (tasks s)))"
      unfolding s by (rule gather_printed[OF assms(2)]) (simp add: new_purge_def answered_def)
    also have "\<dots> = mset (map Deleted (map fst (tasks s)))"
      using all_done_answered[OF fin] by (simp add: comp_def)
    also have "\<dots> = mset (map Deleted ids)"
      unfolding s by (simp add: gather_ids tasks_new_purge)
    finally have m: "mset (printed s) = mset (map Deleted ids)" .
    then have "length (printed s) = length (map Deleted ids)" by (metis size_mset)
    then show ?thesis using m v event_ids_length[OF assms(1)] by simp
  qed
  from delete_events_can_finish[OF assms(1), of msgraph_report resp sched]
  obtain rest s where "delete_events msgraph_report events resp (sched @ rest) = Inr (Some PyNone, s)"
    by blast
  with fin[OF this] fin show ?thesis by blast
qed

theorem all_deleted_lines_witness:
  "event_ids [event_a] = Inr [PyStr ''a'']
   \<and> fst (all_204 0) = 204
   \<and> (\<exists>rest s. delete_events msgraph_report [event_a] all_204 ([Acquire 0] @ rest) = Inr (Some PyNone, s)
         \<and> length (printed s) = length [event_a]
         \<and> mset (printed s) = mset (map Deleted [PyStr ''a'']))
   \<and> delete_events msgraph_report [event_a] all_204 one_task
     = Inr (Some PyNone,
            \<lparr>tasks = [(PyStr ''a'', Done)], permits = 3, requests = [PyStr ''a''],
               printed = [Deleted (PyStr ''a'')]\<rparr>)
   \<and> mset (printed \<lparr>tasks = [(PyStr ''a'', Done)], permits = 3, requests = [PyStr ''a''],
               printed = [Deleted (PyStr ''a'')]\<rparr>) = mset (map Deleted [PyStr ''a''])"
proof -
  have h2: "\<forall>i. fst (all_204 i) = 204" by (simp add: all_204_def)
  from all_deleted_lines[OF event_a_id h2, of "[Acquire 0]"] event_a_id h2 delete_one_event
  show ?thesis by simp
qed

section \<open>Time window: properties of the serialised bounds\<close>

lemma digit_char_digit: "digit_char n \<in> set ''0123456789''"
  unfolding digit_char_def by (rule nth_mem) simp

lemma dec_digits: "set (dec n) \<subseteq> set ''0123456789''"
proof (induction n rule: dec.induct)
  case (1 n)
  show ?case
  proof (cases "n < 10")
    case True
    then show ?thesis using digit_char_digit[of n] by (subst dec.simps) simp
  next
    case False
    then show ?thesis using 1 digit_char_digit[of n] by (subst dec.simps) simp
  qed
qed

lemma zero_pad_no_plus: "CHR ''+'' \<notin> set (zero_pad w n)"
  using dec_digits[of n] by (auto simp: zero_pad_def)

lemma isoformat_body: "isoformat dt = iso_body dt @ ''+00:00''"
  by (simp add: isoformat_def iso_body_def)

lemma iso_body_no_plus: "CHR ''+'' \<notin> set (iso_body dt)"
  by (simp add: iso_body_def zero_pad_no_plus)

text \<open>Text without the first character of \<open>old\<close> is copied as it is.\<close>

lemma replace_from_skip:
  assumes "hd old \<notin> set body" "old \<noteq> []"
  shows "replace_from old new (body @ rest) = body @ replace_from old new rest"
  using assms
proof (induction body)
  case Nil
  then show ?case by simp
next
  case (Cons c body)
  then have "\<not> prefix old ((c # body) @ rest)"
    by (cases old) (auto simp: prefix_Cons)
  then show ?case using Cons by (subst replace_from.simps) simp
qed

lemma replace_offset: "replace_from ''+00:00'' ''Z'' ''+00:00'' = ''Z''"
  by (simp add: replace_from.simps)

lemma iso_z: "py_replace (isoformat dt) ''+00:00'' ''Z'' = iso_body dt @ ''Z''"
  using replace_from_skip[of "''+00:00''" "iso_body dt" "''Z''" "''+00:00''"] iso_body_no_plus[of dt]
  by (simp add: py_replace_def isoformat_body replace_offset)

lemma iso_z_suffix: "suffix ''Z'' (py_replace (isoformat dt) ''+00:00'' ''Z'')"
  by (simp add: iso_z suffix_def)

lemma iso_z_no_offset: "\<not> sublist ''+00:00'' (py_replace (isoformat dt) ''+00:00'' ''Z'')"
proof
  assume "sublist ''+00:00'' (py_replace (isoformat dt) ''+00:00'' ''Z'')"
  then have "set ''+00:00'' \<subseteq> set (iso_body dt @ ''Z'')"
    unfolding iso_z by (rule set_mono_sublist)
  then show False using iso_body_no_plus[of dt] by simp
qed

text \<open>Every window that \<open>main\<close> computes has the two properties, whatever the input.\<close>

lemma every_window_ends_in_Z:
  assumes "time_window db tzname start end' = Returned w"
  shows "suffix ''Z'' (start_time_iso w) \<and> suffix ''Z'' (end_time_iso w)
           \<and> \<not> sublist ''+00:00'' (start_time_iso w) \<and> \<not> sublist ''+00:00'' (end_time_iso w)"
  using assms
  by (auto simp: time_window_def iso_z_suffix iso_z_no_offset split: option.splits sum.splits)

subsection \<open>Inputs for which the window is produced\<close>

lemma digit_in_range:
  assumes "(v, r) \<in> set (digit_in lo hi s)"
  shows "lo \<le> v \<and> v \<le> hi"
  using assms by (auto simp: digit_in_def split: list.splits option.splits if_splits)

lemma two_digits_range:
  assumes "(v, r) \<in> set (two_digits lo1 hi1 lo2 hi2 s)"
  shows "10 * lo1 + lo2 \<le> v \<and> v \<le> 10 * hi1 + hi2"
proof -
  from assms obtain a r1 b where "(a, r1) \<in> set (digit_in lo1 hi1 s)"
    "(b, r) \<in> set (digit_in lo2 hi2 r1)" "v = 10 * a + b"
    by (auto simp: two_digits_def)
  then show ?thesis using digit_in_range[of a r1 lo1 hi1 s] digit_in_range[of b r lo2 hi2 r1]
    by simp
qed

lemma year_re_range:
  assumes "(v, r) \<in> set (year_re s)"
  shows "v \<le> 9999"
proof -
  from assms obtain a r1 b where "(a, r1) \<in> set (two_digits 0 9 0 9 s)"
    "(b, r) \<in> set (two_digits 0 9 0 9 r1)" "v = 100 * a + b"
    by (auto simp: year_re_def)
  then show ?thesis using two_digits_range[of a r1 0 9 0 9 s] two_digits_range[of b r 0 9 0 9 r1]
    by simp
qed

lemma month_re_range:
  assumes "(v, r) \<in> set (month_re s)"
  shows "1 \<le> v \<and> v \<le> 12"
  using assms two_digits_range[of v r 1 1 0 2 s] two_digits_range[of v r 0 0 1 9 s]
    digit_in_range[of v r 1 9 s]
  by (auto simp: month_re_def)

lemma day_re_range:
  assumes "(v, r) \<in> set (day_re s)"
  shows "1 \<le> v \<and> v \<le> 31"
proof -
  from assms consider "(v, r) \<in> set (two_digits 3 3 0 1 s)" | "(v, r) \<in> set (two_digits 1 2 0 9 s)"
    | "(v, r) \<in> set (two_digits 0 0 1 9 s)" | "(v, r) \<in> set (digit_in 1 9 s)"
    | r1 where "(v, r) \<in> set (digit_in 1 9 r1)"
    by (auto simp: day_re_def)
  then show ?thesis
  proof cases
    case 1 then show ?thesis using two_digits_range[of v r 3 3 0 1 s] by simp
  next
    case 2 then show ?thesis using two_digits_range[of v r 1 2 0 9 s] by simp
  next
    case 3 then show ?thesis using two_digits_range[of v r 0 0 1 9 s] by simp
  next
    case 4 then show ?thesis using digit_in_range[of v r 1 9 s] by simp
  next
    case 5 then show ?thesis using digit_in_range[of v r 1 9 r1] by simp
  qed
qed

lemma hour_re_range:
  assumes "(v, r) \<in> set (hour_re s)"
  shows "v \<le> 23"
  using assms two_digits_range[of v r 2 2 0 3 s] two_digits_range[of v r 0 1 0 9 s]
    digit_in_range[of v r 0 9 s]
  by (auto simp: hour_re_def)

lemma minute_re_range:
  assumes "(v, r) \<in> set (minute_re s)"
  shows "v \<le> 59"
  using assms two_digits_range[of v r 0 5 0 9 s] digit_in_range[of v r 0 9 s]
  by (auto simp: minute_re_def)

lemma format_re_range:
  assumes "(dt, r) \<in> set (format_re s)"
  shows "year dt \<le> 9999 \<and> 1 \<le> month dt \<and> month dt \<le> 12 \<and> 1 \<le> day dt \<and> day dt \<le> 31
           \<and> hour dt \<le> 23 \<and> minute dt \<le> 59"
proof -
  from assms obtain y r1 r2 m r3 r4 d r5 r6 h r7 r8 mi where
    "(y, r1) \<in> set (year_re s)" "(m, r3) \<in> set (month_re r2)" "(d, r5) \<in> set (day_re r4)"
    "(h, r7) \<in> set (hour_re r6)" "(mi, r) \<in> set (minute_re r8)"
    "dt = \<lparr>year = y, month = m, day = d, hour = h, minute = mi\<rparr>"
    by (auto simp: format_re_def)
  then show ?thesis
    using year_re_range[of y r1 s] month_re_range[of m r3 r2] day_re_range[of d r5 r4]
      hour_re_range[of h r7 r6] minute_re_range[of mi r r8]
    by simp
qed

text \<open>A datetime that \<open>strptime\<close> returns has its fields in range.\<close>

lemma strptime_fields:
  assumes "strptime s = Some dt"
  shows "1 \<le> year dt \<and> year dt \<le> 9999 \<and> 1 \<le> month dt \<and> month dt \<le> 12
           \<and> 1 \<le> day dt \<and> day dt \<le> 31 \<and> hour dt \<le> 23 \<and> minute dt \<le> 59"
proof -
  from assms obtain rest more where f: "format_re s = (dt, rest) # more" and y: "1 \<le> year dt"
    by (auto simp: strptime_def split: list.splits prod.splits if_splits)
  then have "(dt, rest) \<in> set (format_re s)" by simp
  from format_re_range[OF this] y show ?thesis by simp
qed

lemma days_before_year_bounds:
  assumes "2 \<le> y" "y \<le> 9998"
  shows "365 \<le> days_before_year y \<and> days_before_year y \<le> 3651428"
proof -
  define y1 where "y1 = int y - 1"
  have r: "1 \<le> y1" "y1 \<le> 9997" using assms by (simp_all add: y1_def)
  have a: "y1 div 100 \<le> y1 div 4" using r by (intro zdiv_mono2) simp_all
  have b: "0 \<le> y1 div 400" "0 \<le> y1 div 100" using r by simp_all
  have c: "y1 div 4 \<le> 9997 div 4" using r by (intro zdiv_mono1) simp_all
  have d: "y1 div 400 \<le> 9997 div 400" using r by (intro zdiv_mono1) simp_all
  have "days_before_year y = y1 * 365 + y1 div 4 - y1 div 100 + y1 div 400"
    by (simp add: days_before_year_def y1_def Let_def)
  then show ?thesis using r a b c d by simp
qed

lemma days_before_month_bounds:
  assumes "1 \<le> m" "m \<le> 12"
  shows "0 \<le> days_before_month y m \<and> days_before_month y m \<le> 335"
proof -
  from assms have "m = 1 \<or> m = 2 \<or> m = 3 \<or> m = 4 \<or> m = 5 \<or> m = 6 \<or> m = 7 \<or> m = 8
      \<or> m = 9 \<or> m = 10 \<or> m = 11 \<or> m = 12" by arith
  then show ?thesis by (elim disjE) (simp_all add: days_before_month_def)
qed

text \<open>A date of the years 2 to 9998, in a zone whose offset is at most one day, stays
  within the calendar when it is converted to UTC.\<close>

lemma to_utc_in_range:
  assumes "z dt = Some off" "\<bar>off\<bar> \<le> 1440"
    and "2 \<le> year dt" "year dt \<le> 9998" "1 \<le> month dt" "month dt \<le> 12"
    and "1 \<le> day dt" "day dt \<le> 31" "hour dt \<le> 23" "minute dt \<le> 59"
  shows "\<exists>u. to_utc z dt = Inr u"
proof -
  define ord where "ord = ymd2ord (year dt) (month dt) (day dt)"
  define total where "total = ord * 1440 + int (hour dt) * 60 + int (minute dt) - off"
  have o: "366 \<le> ord \<and> ord \<le> 3651794"
    using days_before_year_bounds[OF assms(3,4)]
      days_before_month_bounds[OF assms(5,6), of "year dt"] assms(7,8)
    by (simp add: ymd2ord_def ord_def)
  have "365 * 1440 \<le> total" using o assms(2) unfolding total_def by linarith
  then have lo: "0 < total div 1440" by linarith
  have "total < 3651796 * 1440" using o assms(2,9,10) unfolding total_def by linarith
  then have hi: "total div 1440 \<le> 3652059" by linarith
  obtain y m d where ymd: "ord2ymd (total div 1440) = (y, m, d)"
    by (cases "ord2ymd (total div 1440)")
  have "to_utc z dt = Inr \<lparr>year = y, month = m, day = d,
                          hour = nat (total mod 1440 div 60), minute = nat (total mod 1440 mod 60)\<rparr>"
    using lo hi assms(1) ymd unfolding to_utc_def total_def ord_def by (simp add: Let_def)
  then show ?thesis by blast
qed

text \<open>So for two strings that \<open>strptime\<close> accepts, of the years 2 to 9998, and a recognised
  zone whose offsets are at most one day, \<open>main\<close> always produces the window.\<close>

lemma window_produced_in_range:
  assumes "db tzname = Some z"
    and "strptime start = Some a" and "strptime end' = Some b"
    and "z a = Some oa" "\<bar>oa\<bar> \<le> 1440" "z b = Some ob" "\<bar>ob\<bar> \<le> 1440"
    and "2 \<le> year a" "year a \<le> 9998" "2 \<le> year b" "year b \<le> 9998"
  shows "\<exists>w. time_window db tzname start end' = Returned w"
proof -
  from strptime_fields[OF assms(2)] assms(4,5,8,9) obtain ua where "to_utc z a = Inr ua"
    using to_utc_in_range[of z a oa] by auto
  moreover from strptime_fields[OF assms(3)] assms(6,7,10,11) obtain ub where "to_utc z b = Inr ub"
    using to_utc_in_range[of z b ob] by auto
  ultimately show ?thesis using assms(1,2,3) by (simp add: time_window_def)
qed

subsection \<open>The window of the first day of 2023\<close>

lemma strptime_jan_1: "strptime ''2023-01-01 00:00'' = Some jan_1"
  by code_simp

lemma strptime_jan_2: "strptime ''2023-01-02 00:00'' = Some jan_2"
  by code_simp

lemma to_utc_jan_1: "to_utc utc_zone jan_1 = Inr jan_1"
  by code_simp

lemma to_utc_jan_2: "to_utc utc_zone jan_2 = Inr jan_2"
  by code_simp

lemma iso_jan_1: "py_replace (isoformat jan_1) ''+00:00'' ''Z'' = ''2023-01-01T00:00:00Z''"
  by code_simp

lemma iso_jan_2: "py_replace (isoformat jan_2) ''+00:00'' ''Z'' = ''2023-01-02T00:00:00Z''"
  by code_simp

lemmas eval_2023 = strptime_jan_1 strptime_jan_2 to_utc_jan_1 to_utc_jan_2 iso_jan_1 iso_jan_2

text \<open>The scenario of the specification: one day in January 2023, given in UTC.\<close>

lemma window_2023:
  "time_window utc_only ''UTC'' ''2023-01-01 00:00'' ''2023-01-02 00:00'' = Returned first_day"
  by (simp add: time_window_def utc_only_def eval_2023 first_day_def)

lemma to_utc_raises: "to_utc z dt = Inl e \<Longrightarrow> e = OverflowError"
  by (auto simp: to_utc_def Let_def split: option.splits if_splits prod.splits)

lemma strptime_first_midnight: "strptime ''0001-01-01 00:00'' = Some first_midnight"
  by code_simp

lemma strptime_second_midnight: "strptime ''0001-01-02 00:00'' = Some second_midnight"
  by code_simp

lemma to_utc_first_midnight: "to_utc plus_two first_midnight = Inl OverflowError"
  by code_simp

text \<open>
  Claim C8, as stated: for every valid pair of strings and every recognised time zone
  the window is produced. It fails at the ends of the calendar: \<open>0001-01-01 00:00\<close> is
  a valid date, and in a zone two hours east of UTC its instant in UTC lies before year
  1, so \<open>astimezone\<close> raises \<open>OverflowError\<close>, which \<open>except ValueError\<close> does not catch:
  no window is produced and the run ends with a traceback.
\<close>

theorem window_overflow_counterexample:
  "two_zones ''Etc/GMT-2'' = Some plus_two
   \<and> strptime ''0001-01-01 00:00'' = Some first_midnight
   \<and> strptime ''0001-01-02 00:00'' = Some second_midnight
   \<and> time_window two_zones ''Etc/GMT-2'' ''0001-01-01 00:00'' ''0001-01-02 00:00''
       = Raised OverflowError"
  by (simp add: time_window_def two_zones_def strptime_first_midnight strptime_second_midnight
      to_utc_first_midnight)

text \<open>
  Claim C8, amended: for a recognised time zone and two strings that \<open>strptime\<close> accepts,
  \<open>main\<close> either raises \<open>OverflowError\<close>, because the conversion of a bound to UTC
  leaves the years 1 to 9999, or produces the window of the two instants, and then both
  serialised bounds end in the letter \<open>Z\<close> and nowhere contain \<open>+00:00\<close>. It produces the
  window for all dates of the years 2 to 9998 in a zone whose offsets at them are at most
  one day.
\<close>

theorem window_bounds_end_in_Z:
  assumes "db tzname = Some z"
    and "strptime start = Some a" and "strptime end' = Some b"
  shows "(time_window db tzname start end' = Raised OverflowError
            \<and> (to_utc z a = Inl OverflowError \<or> to_utc z b = Inl OverflowError)
          \<or> (\<exists>w. time_window db tzname start end' = Returned w
                \<and> to_utc z a = Inr (start_time w) \<and> to_utc z b = Inr (end_time w)
                \<and> suffix ''Z'' (start_time_iso w) \<and> suffix ''Z'' (end_time_iso w)
                \<and> \<not> sublist ''+00:00'' (start_time_iso w)
                \<and> \<not> sublist ''+00:00'' (end_time_iso w)))
       \<and> (\<forall>oa ob. z a = Some oa \<and> \<bar>oa\<bar> \<le> 1440 \<and> z b = Some ob \<and> \<bar>ob\<bar> \<le> 1440
              \<and> 2 \<le> year a \<and> year a \<le> 9998 \<and> 2 \<le> year b \<and> year b \<le> 9998 \<longrightarrow>
            (\<exists>w. time_window db tzname start end' = Returned w
                \<and> suffix ''Z'' (start_time_iso w) \<and> suffix ''Z'' (end_time_iso w)
                \<and> \<not> sublist ''+00:00'' (start_time_iso w)
                \<and> \<not> sublist ''+00:00'' (end_time_iso w)))"
proof
  show "time_window db tzname start end' = Raised OverflowError
            \<and> (to_utc z a = Inl OverflowError \<or> to_utc z b = Inl OverflowError)
          \<or> (\<exists>w. time_window db tzname start end' = Returned w
                \<and> to_utc z a = Inr (start_time w) \<and> to_utc z b = Inr (end_time w)
                \<and> suffix ''Z'' (start_time_iso w) \<and> suffix ''Z'' (end_time_iso w)
                \<and> \<not> sublist ''+00:00'' (start_time_iso w)
                \<and> \<not> sublist ''+00:00'' (end_time_iso w))"
  proof (cases "to_utc z a")
    case (Inl e)
    then show ?thesis using assms to_utc_raises[OF Inl] by (simp add: time_window_def)
  next
    case ua: (Inr ua)
    show ?thesis
    proof (cases "to_utc z b")
      case (Inl e)
      then show ?thesis using assms ua to_utc_raises[OF Inl] by (simp add: time_window_def)
    next
      case (Inr ub)
      then show ?thesis using assms ua
        by (simp add: time_window_def iso_z_suffix iso_z_no_offset)
    qed
  qed
next
  show "\<forall>oa ob. z a = Some oa \<and> \<bar>oa\<bar> \<le> 1440 \<and> z b = Some ob \<and> \<bar>ob\<bar> \<le> 1440
              \<and> 2 \<le> year a \<and> year a \<le> 9998 \<and> 2 \<le> year b \<and> year b \<le> 9998 \<longrightarrow>
            (\<exists>w. time_window db tzname start end' = Returned w
                \<and> suffix ''Z'' (start_time_iso w) \<and> suffix ''Z'' (end_time_iso w)
                \<and> \<not> sublist ''+00:00'' (start_time_iso w)
                \<and> \<not> sublist ''+00:00'' (end_time_iso w))"
  proof (intro allI impI)
    fix oa ob
    assume h: "z a = Some oa \<and> \<bar>oa\<bar> \<le> 1440 \<and> z b = Some ob \<and> \<bar>ob\<bar> \<le> 1440
              \<and> 2 \<le> year a \<and> year a \<le> 9998 \<and> 2 \<le> year b \<and> year b \<le> 9998"
    then obtain w where "time_window db tzname start end' = Returned w"
      using window_produced_in_range[of db tzname z start a end' b oa ob] assms by blast
    then show "\<exists>w. time_window db tzname start end' = Returned w
                \<and> suffix ''Z'' (start_time_iso w) \<and> suffix ''Z'' (end_time_iso w)
                \<and> \<not> sublist ''+00:00'' (start_time_iso w)
                \<and> \<not> sublist ''+00:00'' (end_time_iso w)"
      using every_window_ends_in_Z by blast
  qed
qed

lemma utc_zone_jan: "utc_zone jan_1 = Some 0" "utc_zone jan_2 = Some 0"
  by (simp_all add: utc_zone_def)

lemma jan_years: "year jan_1 = 2023" "year jan_2 = 2023"
  by (simp_all add: jan_1_def jan_2_def)

theorem window_bounds_end_in_Z_witness:
  "utc_only ''UTC'' = Some utc_zone
   \<and> strptime ''2023-01-01 00:00'' = Some jan_1 \<and> strptime ''2023-01-02 00:00'' = Some jan_2
   \<and> utc_zone jan_1 = Some 0 \<and> utc_zone jan_2 = Some 0 \<and> year jan_1 = 2023 \<and> year jan_2 = 2023
   \<and> (\<exists>w. time_window utc_only ''UTC'' ''2023-01-01 00:00'' ''2023-01-02 00:00'' = Returned w
         \<and> suffix ''Z'' (start_time_iso w) \<and> suffix ''Z'' (end_time_iso w)
         \<and> \<not> sublist ''+00:00'' (start_time_iso w) \<and> \<not> sublist ''+00:00'' (end_time_iso w))"
proof -
  have h: "utc_only ''UTC'' = Some utc_zone" by (simp add: utc_only_def)
  have r: "utc_zone jan_1 = Some 0 \<and> \<bar>0::int\<bar> \<le> 1440 \<and> utc_zone jan_2 = Some 0 \<and> \<bar>0::int\<bar> \<le> 1440
      \<and> 2 \<le> year jan_1 \<and> year jan_1 \<le> 9998 \<and> 2 \<le> year jan_2 \<and> year jan_2 \<le> 9998"
    by (simp add: utc_zone_jan jan_years)
  from window_bounds_end_in_Z[of utc_only "''UTC''" utc_zone "''2023-01-01 00:00''" jan_1
      "''2023-01-02 00:00''" jan_2, OF h strptime_jan_1 strptime_jan_2] r
  have "\<exists>w. time_window utc_only ''UTC'' ''2023-01-01 00:00'' ''2023-01-02 00:00'' = Returned w
         \<and> suffix ''Z'' (start_time_iso w) \<and> suffix ''Z'' (end_time_iso w)
         \<and> \<not> sublist ''+00:00'' (start_time_iso w) \<and> \<not> sublist ''+00:00'' (end_time_iso w)"
    by blast
  then show ?thesis using h strptime_jan_1 strptime_jan_2 utc_zone_jan jan_years by blast
qed

text \<open>
  Claim C9, as stated: every window has \<open>start <= end\<close>. It fails: \<open>main\<close> converts the
  two bounds one after the other and never compares them. With \<open>--start\<close> one day after
  \<open>--end\<close> the window is produced all the same, with its start after its end.
\<close>

theorem window_start_after_end_counterexample:
  "time_window utc_only ''UTC'' ''2023-01-02 00:00'' ''2023-01-01 00:00'' = Returned (swapped first_day)
   \<and> start_time (swapped first_day) = jan_2 \<and> end_time (swapped first_day) = jan_1
   \<and> \<not> dt_le jan_2 jan_1"
proof -
  have w: "time_window utc_only ''UTC'' ''2023-01-02 00:00'' ''2023-01-01 00:00''
             = Returned (swapped first_day)"
    by (simp add: time_window_def utc_only_def eval_2023 first_day_def swapped_def)
  have o: "\<not> dt_le jan_2 jan_1"
    by (simp add: dt_le_def jan_1_def jan_2_def)
  show ?thesis using w o by (simp add: swapped_def first_day_def)
qed

lemma window_swap:
  assumes "time_window db tzname start end' = Returned w"
  shows "time_window db tzname end' start = Returned (swapped w)"
  using assms by (auto simp: time_window_def swapped_def split: option.splits sum.splits)

section \<open>The programs as a whole\<close>

lemma fetch_one_event:
  "fetch_events s e [page [event_a] None] = Some (Returned [event_a])"
  by (simp add: fetch_events_def first_link_truthy fetch_loop_page_step page_eval fetch_loop_stop)

lemma fetch_failing_listing:
  "fetch_events s e [page [event_a] (Some ''next''), Response 500 None, page [event_b] None]
     = Some (SysExit 1)"
  by (simp add: fetch_events_def first_link_truthy fetch_loop_page_step page_eval
      fetch_loop.simps[of _ _ "Response 500 None # _"] is_http_error_def)

lemma google_fetch_one_event:
  "google_fetch_events [Response 200 (Some (PyDict [(''items'', PyList [event_a])]))]
     = Some (Returned [event_a])"
  by (simp add: google_fetch_events_def)

lemma google_delete_one_event:
  "delete_events google_report [event_a] all_204 one_task
     = Inr (Some PyNone,
            \<lparr>tasks = [(PyStr ''a'', Done)], permits = 3, requests = [PyStr ''a''], printed = []\<rparr>)"
  by (simp add: delete_events_def event_a_def all_204_def one_task_def gather_def new_purge_def
      all_done_def google_report_def)

lemma delete_again_tasks: "tasks (delete_again resp k ids s) = tasks s"
  by (induction ids arbitrary: k s) simp_all

lemma delete_events_sends_each_once:
  assumes "delete_events report events resp sched = Inr (Some v, s)"
  shows "mset (requests s) = mset (map fst (tasks s))"
proof -
  from assms obtain ids where s: "s = gather report resp sched (new_purge ids)"
    and fin: "all_done s"
    by (auto simp: delete_events_def Let_def split: sum.splits if_splits)
  from fin have "mset (requests s) = mset ids" unfolding s by (rule gather_sends_each_once)
  then show ?thesis unfolding s by (simp add: gather_ids tasks_new_purge)
qed

text \<open>Every run of cleaner.py that ends normally has sent each id of the batch twice.\<close>

lemma cleaner_main_sends_each_twice:
  assumes "ending (cleaner_main w a) = Some (Returned ())"
  shows "\<exists>s. purged (cleaner_main w a) = Some s
           \<and> mset (requests s) = mset (map fst (tasks s)) + mset (map fst (tasks s))"
proof -
  from assms have "\<exists>events v s0.
      delete_events msgraph_report events (deletes w) (schedule w) = Inr (Some v, s0)
      \<and> purged (cleaner_main w a)
          = Some (delete_again (deletes_again w) 0 (map fst (tasks s0)) s0)"
    by (auto simp: cleaner_main_def stop_def no_run_def
        split: if_splits option.splits outcome.splits prod.splits sum.splits)
  then obtain events v s0 where
    d: "delete_events msgraph_report events (deletes w) (schedule w) = Inr (Some v, s0)"
    and p: "purged (cleaner_main w a)
          = Some (delete_again (deletes_again w) 0 (map fst (tasks s0)) s0)"
    by blast
  from delete_events_sends_each_once[OF d] p show ?thesis
    by (simp add: delete_again_requests delete_again_tasks)
qed

text \<open>
  Claim C1 says that no event id is sent to the delete endpoint more than once in a run.
  cleaner.py breaks it: after \<open>gather\<close> has deleted every event, the loop that follows
  sends a second delete for each of them. For a listing with the single event \<open>a\<close> the
  run sends two requests for \<open>a\<close>; the second is answered 404 here.
\<close>

theorem cleaner_main_deletes_twice:
  "cleaner_main one_event_world purge_args
     = \<lparr>ending = Some (Returned ()), cache_cleaned = False, signed_in = True, listed = True,
        purged = Some \<lparr>tasks = [(PyStr ''a'', Done)], permits = 3,
                        requests = [PyStr ''a'', PyStr ''a''],
                        printed = [Deleted (PyStr ''a''),
                                   CouldNotDelete (PyStr ''a'') 404 ''not found'']\<rparr>\<rparr>"
  by (simp add: cleaner_main_def one_event_world_def purge_args_def window_2023 first_day_def
      fetch_one_event delete_one_event stop_def no_run_def msgraph_report_def all_404_def)

text \<open>The same provider and the same command line with msgraph_cleaner.py: one request.\<close>

lemma msgraph_main_deletes_once:
  "msgraph_main one_event_world purge_args
     = \<lparr>ending = Some (Returned ()), cache_cleaned = False, signed_in = True, listed = True,
        purged = Some \<lparr>tasks = [(PyStr ''a'', Done)], permits = 3, requests = [PyStr ''a''],
                        printed = [Deleted (PyStr ''a'')]\<rparr>\<rparr>"
  by (simp add: msgraph_main_def one_event_world_def purge_args_def window_2023 first_day_def
      fetch_one_event delete_one_event stop_def no_run_def falsy_def)

text \<open>
  Claim C7 says that with \<open>--clean\<close> the program clears the token cache, performs no purge
  and exits normally. Both programs that have the flag break it. google_cleaner.py
  removes the cache and then goes on, because \<open>sys.exit\<close> is not called: with \<open>--start\<close>
  and \<open>--end\<close> given as well it enumerates and deletes, and without them it leaves with
  status 1. msgraph_cleaner.py raises
  \<open>TypeError\<close> at \<open>CalendarCleaner.clean_cache()\<close>: the cache stays and the exit is not a
  normal one.
\<close>

theorem clean_flag_runs:
  "google_main google_world clean_purge_args
     = \<lparr>ending = Some (Returned ()), cache_cleaned = True, signed_in = True, listed = True,
        purged = Some \<lparr>tasks = [(PyStr ''a'', Done)], permits = 3, requests = [PyStr ''a''],
                        printed = []\<rparr>\<rparr>
   \<and> google_main google_world clean_args
     = \<lparr>ending = Some (SysExit 1), cache_cleaned = True, signed_in = False, listed = False,
        purged = None\<rparr>
   \<and> msgraph_main one_event_world clean_args
     = \<lparr>ending = Some (Raised TypeError), cache_cleaned = False, signed_in = False,
        listed = False, purged = None\<rparr>"
  by (simp add: google_main_def google_world_def clean_purge_args_def window_2023 first_day_def
      google_fetch_one_event google_delete_one_event stop_def no_run_def falsy_def
      msgraph_main_def one_event_world_def clean_args_def)

text \<open>
  Claim C5: when a page fetch that the listing loop reaches is answered with an HTTP error
  status (400 to 599, the statuses for which \<open>raise_for_status\<close> raises), the run of
  msgraph_cleaner.py or cleaner.py ends with \<open>sys.exit(1)\<close> and starts no purge: none of
  the events of the earlier pages reaches \<open>delete_events\<close>.
\<close>

theorem listing_error_aborts_run:
  assumes "main = msgraph_main \<or> main = cleaner_main"
    and "listed (main w a)"
    and "listing w = pre @ Response st body # post"
    and "is_http_error st"
    and "fetch_events s e pre = None"
  shows "ending (main w a) = Some (SysExit 1) \<and> purged (main w a) = None"
proof -
  have F: "fetch_events s' e' (listing w) = Some (SysExit 1)" for s' e'
  proof -
    have "fetch_events s' e' pre = None" using assms(5) fetch_events_link by metis
    then show ?thesis
      using fetch_loop_error_after[OF _ assms(4)] unfolding assms(3) fetch_events_def by blast
  qed
  from assms(1) show ?thesis
  proof
    assume "main = msgraph_main"
    then show ?thesis using assms(2)
      by (auto simp: msgraph_main_def stop_def no_run_def F
          split: if_splits option.splits outcome.splits prod.splits)
  next
    assume "main = cleaner_main"
    then show ?thesis using assms(2)
      by (auto simp: cleaner_main_def stop_def no_run_def F
          split: if_splits option.splits outcome.splits prod.splits)
  qed
qed

lemma msgraph_main_failing_world:
  "msgraph_main failing_world purge_args
     = \<lparr>ending = Some (SysExit 1), cache_cleaned = False, signed_in = True, listed = True,
        purged = None\<rparr>"
  by (simp add: msgraph_main_def failing_world_def purge_args_def window_2023 first_day_def
      fetch_failing_listing stop_def no_run_def falsy_def)

theorem listing_error_aborts_run_witness:
  "listed (msgraph_main failing_world purge_args)
   \<and> listing failing_world = [page [event_a] (Some ''next'')] @ Response 500 None # [page [event_b] None]
   \<and> is_http_error 500
   \<and> fetch_events ''s'' ''e'' [page [event_a] (Some ''next'')] = None
   \<and> ending (msgraph_main failing_world purge_args) = Some (SysExit 1)
   \<and> purged (msgraph_main failing_world purge_args) = None"
proof -
  have h1: "msgraph_main = msgraph_main \<or> msgraph_main = cleaner_main" by simp
  have h2: "listed (msgraph_main failing_world purge_args)"
    by (simp add: msgraph_main_failing_world)
  have h3: "listing failing_world
              = [page [event_a] (Some ''next'')] @ Response 500 None # [page [event_b] None]"
    by (simp add: failing_world_def)
  have h4: "is_http_error 500" by (simp add: is_http_error_def)
  have h5: "fetch_events ''s'' ''e'' [page [event_a] (Some ''next'')] = None"
    by (simp add: fetch_events_def first_link_truthy fetch_loop_page_step page_eval
        fetch_loop_None_iff_Nil)
  from listing_error_aborts_run[OF h1 h2 h3 h4 h5] h2 h3 h4 h5 show ?thesis by blast
qed

lemma dt_le_antisym:
  assumes "dt_le x y" "dt_le y x"
  shows "x = y"
proof -
  from assms have "(year x, month x, day x, hour x, minute x)
      = (year y, month y, day y, hour y, minute y)"
    unfolding dt_le_def by (rule order.antisym)
  then show ?thesis by simp
qed

lemma window_conversions:
  assumes "time_window db tzname start end' = Returned w"
  shows "\<exists>z sa ea. db tzname = Some z \<and> strptime start = Some sa \<and> strptime end' = Some ea
           \<and> to_utc z sa = Inr (start_time w) \<and> to_utc z ea = Inr (end_time w)"
  using assms by (auto simp: time_window_def split: option.splits sum.splits)

text \<open>
  Claim C9, amended: both bounds are converted to UTC before any network call. A run of
  any of the three programs that signs in, lists or purges has obtained a window from its
  \<open>--start\<close> and \<open>--end\<close>, whose start is the conversion of \<open>--start\<close> and whose end is
  the conversion of \<open>--end\<close>, each converted on its own. The two bounds are never
  compared, so \<open>start <= end\<close> is no invariant: the same two arguments exchanged yield the
  window with the bounds exchanged, and \<open>start <= end\<close> holds for both orders only when the
  two bounds are the same instant.
\<close>

theorem window_order_is_the_callers:
  assumes "main = msgraph_main \<or> main = google_main \<or> main = cleaner_main"
    and "signed_in (main w a) \<or> listed (main w a) \<or> purged (main w a) \<noteq> None"
  shows "\<exists>start end' win. start_arg a = Some start \<and> end_arg a = Some end'
           \<and> time_window (timezones w) (timezone_arg a) start end' = Returned win
           \<and> (\<exists>z sa ea. timezones w (timezone_arg a) = Some z
                 \<and> strptime start = Some sa \<and> strptime end' = Some ea
                 \<and> to_utc z sa = Inr (start_time win) \<and> to_utc z ea = Inr (end_time win))
           \<and> time_window (timezones w) (timezone_arg a) end' start = Returned (swapped win)
           \<and> start_time (swapped win) = end_time win \<and> end_time (swapped win) = start_time win
           \<and> (dt_le (start_time win) (end_time win)
                 \<and> dt_le (start_time (swapped win)) (end_time (swapped win))
               \<longrightarrow> start_time win = end_time win)"
proof -
  have "\<exists>start end' win. start_arg a = Some start \<and> end_arg a = Some end'
           \<and> time_window (timezones w) (timezone_arg a) start end' = Returned win"
    using assms(1)
  proof (elim disjE)
    assume "main = msgraph_main"
    then show ?thesis using assms(2)
      by (auto simp: msgraph_main_def stop_def no_run_def
          split: if_splits option.splits outcome.splits prod.splits)
  next
    assume "main = google_main"
    then show ?thesis using assms(2)
      by (auto simp: google_main_def stop_def no_run_def Let_def
          split: if_splits option.splits outcome.splits prod.splits)
  next
    assume "main = cleaner_main"
    then show ?thesis using assms(2)
      by (auto simp: cleaner_main_def stop_def no_run_def
          split: if_splits option.splits outcome.splits prod.splits)
  qed
  then obtain start end' win where se: "start_arg a = Some start" "end_arg a = Some end'"
    and win: "time_window (timezones w) (timezone_arg a) start end' = Returned win"
    by blast
  have sw: "start_time (swapped win) = end_time win" "end_time (swapped win) = start_time win"
    by (simp_all add: swapped_def)
  have "dt_le (start_time win) (end_time win)
          \<and> dt_le (start_time (swapped win)) (end_time (swapped win))
        \<longrightarrow> start_time win = end_time win"
    unfolding sw using dt_le_antisym by blast
  with se win window_conversions[OF win] window_swap[OF win] sw show ?thesis by blast
qed

theorem window_order_is_the_callers_witness:
  "signed_in (msgraph_main one_event_world purge_args)
   \<and> (\<exists>start end' win. start_arg purge_args = Some start \<and> end_arg purge_args = Some end'
        \<and> time_window (timezones one_event_world) (timezone_arg purge_args) start end' = Returned win
        \<and> time_window (timezones one_event_world) (timezone_arg purge_args) end' start
            = Returned (swapped win)
        \<and> (dt_le (start_time win) (end_time win)
              \<and> dt_le (start_time (swapped win)) (end_time (swapped win))
            \<longrightarrow> start_time win = end_time win))"
proof -
  have h1: "msgraph_main = msgraph_main \<or> msgraph_main = google_main \<or> msgraph_main = cleaner_main"
    by simp
  have h2: "signed_in (msgraph_main one_event_world purge_args)"
    by (simp add: msgraph_main_deletes_once)
  then have h2': "signed_in (msgraph_main one_event_world purge_args)
      \<or> listed (msgraph_main one_event_world purge_args)
      \<or> purged (msgraph_main one_event_world purge_args) \<noteq> None" by simp
  from window_order_is_the_callers[OF h1 h2'] h2 show ?thesis by blast
qed

end
